theory Spec2Isabelle
  imports Complex_Main "HOL-Library.Log_Nat"
begin

section \<open>Python values, exceptions and library functions\<close>

text \<open>
  The module \<^verbatim>\<open>main.py\<close> is embedded function by function. Every exception the
  source can raise is a value; a function that can raise returns \<open>exn + 'a\<close>, together
  with the state it leaves behind. A number (a Python float or int) is modelled by the
  rational it stands for; clock readings of \<^verbatim>\<open>time.monotonic()\<close> are rationals, in
  seconds.
\<close>

datatype exn = KeyError | ValueError | UnboundLocalError | IndexError | RequestException

text \<open>
  \<^verbatim>\<open>round(x, ndigits)\<close> and \<^verbatim>\<open>round(x)\<close>: Python rounds to the nearest value and
  resolves a tie to the even neighbour.
\<close>

definition round_half_even :: "rat \<Rightarrow> int" where
  "round_half_even x =
     (let n = \<lfloor>x\<rfloor>; r = x - of_int n
      in if r < 1 / 2 then n
         else if 1 / 2 < r then n + 1
         else if even n then n else n + 1)"

definition py_round :: "nat \<Rightarrow> rat \<Rightarrow> rat" where
  "py_round ndigits x = of_int (round_half_even (x * 10 ^ ndigits)) / 10 ^ ndigits"

text \<open>
  \<^verbatim>\<open>random.random()\<close> scales a 53-bit integer drawn from the generator to \<open>[0, 1)\<close>;
  \<^verbatim>\<open>random.uniform(a, b)\<close> is \<^verbatim>\<open>a + (b - a) * random()\<close>. The raw draw is an
  input of the model.
\<close>

definition random_random :: "int \<Rightarrow> rat" where
  "random_random k = of_int (k mod 2 ^ 53) / 2 ^ 53"

definition uniform :: "rat \<Rightarrow> rat \<Rightarrow> int \<Rightarrow> rat" where
  "uniform a b k = a + (b - a) * random_random k"

text \<open>
  Floating-point arithmetic. A Python float is modelled by the rational it stands for.
  The operations on floats round, and how \<^verbatim>\<open>sum\<close> rounds depends on the interpreter
  (CPython adds the floats from left to right, from version 3.12 on with a compensation
  term). The two operations that the source applies to the coordinates of a way,
  \<^verbatim>\<open>sum(xs)\<close> on a list of floats and \<^verbatim>\<open>x / n\<close>, are therefore inputs of the model.
  Their results are finite: an overflow to \<^verbatim>\<open>inf\<close> has no counterpart here. Elsewhere
  (the rating, the rounded distances) the model computes on the exact values.
\<close>

record arith =
  float_sum :: "rat list \<Rightarrow> rat"
  truediv :: "rat \<Rightarrow> rat \<Rightarrow> rat"

text \<open>
  The instance for IEEE 754 binary64 with rounding to nearest, ties to even. \<open>ilog2 x\<close>
  is the exponent \<open>e\<close> with \<open>2^e \<le> |x| < 2^(e+1)\<close>; the doubles around \<open>x\<close> are
  \<open>2^(e - 52)\<close> apart, and from the exponent \<open>-1022\<close> downwards the spacing stays at
  \<open>2^(-1074)\<close>. A result beyond the largest finite double, which Python reports as
  \<^verbatim>\<open>inf\<close>, is not modelled. \<open>float_sum\<close> adds from left to right, starting from 0.
\<close>

definition ilog2 :: "rat \<Rightarrow> int" where
  "ilog2 x =
     (case quotient_of \<bar>x\<bar> of
        (p, q) \<Rightarrow> (let d = bitlen p - bitlen q in if power_int 2 d \<le> \<bar>x\<bar> then d else d - 1))"

definition double_round :: "rat \<Rightarrow> rat" where
  "double_round x =
     (if x = 0 then 0
      else let q = power_int 2 (max (ilog2 x) (- 1022) - 52)
           in of_int (round_half_even (x / q)) * q)"

definition binary64 :: arith where
  "binary64 =
     \<lparr>float_sum = foldl (\<lambda>s x. double_round (s + x)) 0,
      truediv = (\<lambda>x y. double_round (x / y))\<rparr>"

text \<open>
  The outcome of an outbound HTTP request, as the source sees it:
  \<^verbatim>\<open>requests.RequestException\<close> (transport error, timeout, a status that
  \<^verbatim>\<open>raise_for_status\<close> rejects, a body that is not JSON), or the decoded body.
\<close>

datatype 'd response = RequestFailed | Reply 'd

datatype provider = Overpass | OpenWeatherMap | OSRM

section \<open>The tiered cache\<close>

text \<open>
  Modelled from the spec: the class \<^verbatim>\<open>TTLCache\<close> comes from the \<^verbatim>\<open>cachetools\<close>
  package, which is not part of the sources. Following sections 3 and 4.1 of the
  specification, a cache entry is a key, a value and an expiry time (insertion time plus
  TTL); an entry is visible to readers only while \<open>now < expiry\<close>; the cache has a
  capacity, and when it is full an insertion first drops the expired entries and then
  evicts the least recently used ones. \<open>links\<close> lists the entries from the least to the
  most recently used; reading an entry with \<open>getitem\<close> or storing it with \<open>setitem\<close>
  makes it the most recently used one, the membership test \<open>cache_contains\<close> does not.
\<close>

record ('k, 'v) ttl_cache =
  maxsize :: nat
  ttl :: rat
  links :: "('k \<times> 'v \<times> rat) list"

definition TTLCache :: "nat \<Rightarrow> rat \<Rightarrow> ('k, 'v) ttl_cache" where
  "TTLCache m t = \<lparr>maxsize = m, ttl = t, links = []\<rparr>"

definition unexpired :: "rat \<Rightarrow> 'k \<times> 'v \<times> rat \<Rightarrow> bool" where
  "unexpired now l = (now < snd (snd l))"

definition expire :: "rat \<Rightarrow> ('k, 'v) ttl_cache \<Rightarrow> ('k, 'v) ttl_cache" where
  "expire now c = c\<lparr>links := filter (unexpired now) (links c)\<rparr>"

definition cache_contains :: "rat \<Rightarrow> 'k \<Rightarrow> ('k, 'v) ttl_cache \<Rightarrow> bool" where
  "cache_contains now k c =
     (case map_of (links c) k of None \<Rightarrow> False | Some (v, e) \<Rightarrow> now < e)"

definition move_to_end :: "'k \<Rightarrow> 'v \<times> rat \<Rightarrow> ('k \<times> 'v \<times> rat) list \<Rightarrow> ('k \<times> 'v \<times> rat) list" where
  "move_to_end k ve ls = filter (\<lambda>l. fst l \<noteq> k) ls @ [(k, ve)]"

definition getitem :: "rat \<Rightarrow> 'k \<Rightarrow> ('k, 'v) ttl_cache \<Rightarrow> (exn + 'v) \<times> ('k, 'v) ttl_cache" where
  "getitem now k c =
     (case map_of (links c) k of
        None \<Rightarrow> (Inl KeyError, c)
      | Some (v, e) \<Rightarrow>
          (if now < e then Inr v else Inl KeyError,
           c\<lparr>links := move_to_end k (v, e) (links c)\<rparr>))"

text \<open>The loop \<^verbatim>\<open>while currsize + 1 > maxsize: popitem()\<close>: drop from the least recently used end.\<close>

fun popitems :: "nat \<Rightarrow> 'a list \<Rightarrow> 'a list" where
  "popitems m [] = []"
| "popitems m (l # ls) = (if m < length (l # ls) + 1 then popitems m ls else l # ls)"

definition setitem :: "rat \<Rightarrow> 'k \<Rightarrow> 'v \<Rightarrow> ('k, 'v) ttl_cache \<Rightarrow> exn + ('k, 'v) ttl_cache" where
  "setitem now k v c =
     (if maxsize c < 1 then Inl ValueError
      else
        let ls = links (expire now c);
            ls' = (if k \<in> fst ` set ls then ls else popitems (maxsize c) ls)
        in Inr (c\<lparr>links := move_to_end k (v, now + ttl c) ls'\<rparr>))"

section \<open>Module state\<close>

record poi =
  name :: string
  location :: "rat \<times> rat"
  address :: string
  ptype :: string
  rating :: rat
  description :: string
  phone :: string
  website :: string
  opening_hours :: string

record weather =
  w_description :: string
  w_temperature :: int
  w_feels_like :: int
  w_humidity :: rat
  w_wind_speed :: rat
  w_icon :: string

text \<open>
  The module-level caches \<^verbatim>\<open>CACHE\<close> and \<^verbatim>\<open>POI_CACHE\<close>, the cache that each use of
  the decorator \<^verbatim>\<open>timed_lru_cache\<close> closes over, the outbound requests sent so far, and
  the records written with \<^verbatim>\<open>logger.warning\<close> (the category each one names). Records
  of level error are not modelled.
\<close>

record world =
  CACHE :: "(string, unit) ttl_cache"
  POI_CACHE :: "(string, poi list) ttl_cache"
  fetch_pois_cache :: "(string, poi list) ttl_cache"
  fetch_weather_cache :: "(string, weather option) ttl_cache"
  sent :: "provider list"
  warnings :: "string list"

definition initial_world :: world where
  "initial_world =
     \<lparr>CACHE = TTLCache 100 3600,
      POI_CACHE = TTLCache 100 86400,
      fetch_pois_cache = TTLCache 100 3600,
      fetch_weather_cache = TTLCache 100 300,
      sent = [],
      warnings = []\<rparr>"

section \<open>The decorator \<^verbatim>\<open>timed_lru_cache\<close>\<close>

text \<open>
  \<^verbatim>\<open>wrapper\<close> looks the key up in the decorator's cache; on \<^verbatim>\<open>KeyError\<close> it calls the
  wrapped function and stores what it returned. An exception of the wrapped function
  passes through and nothing is stored. \<open>cache_of\<close> and \<open>put\<close> select the decorator's
  cache in the module state. \<open>now\<close> is the reading of \<^verbatim>\<open>time.monotonic()\<close> during the
  call: the cache operations of one call all observe the same reading.
\<close>

definition wrapper ::
  "('w \<Rightarrow> (string, 'r) ttl_cache) \<Rightarrow> ((string, 'r) ttl_cache \<Rightarrow> 'w \<Rightarrow> 'w) \<Rightarrow>
   rat \<Rightarrow> string \<Rightarrow> ('w \<Rightarrow> (exn + 'r) \<times> 'w) \<Rightarrow> 'w \<Rightarrow> (exn + 'r) \<times> 'w" where
  "wrapper cache_of put now key f w =
     (case getitem now key (cache_of w) of
        (Inr r, c) \<Rightarrow> (Inr r, put c w)
      | (Inl _, c) \<Rightarrow>
          (case f (put c w) of
             (Inl e, w1) \<Rightarrow> (Inl e, w1)
           | (Inr r, w1) \<Rightarrow>
               (case setitem now key r (cache_of w1) of
                  Inl e \<Rightarrow> (Inl e, w1)
                | Inr c2 \<Rightarrow> (Inr r, put c2 w1))))"

text \<open>
  \<^verbatim>\<open>key = str(args) + str(kwargs)\<close> for one positional argument and for two; \<open>repr\<close> is
  Python's \<^verbatim>\<open>repr\<close> on the argument type.
\<close>

definition key1 :: "('a \<Rightarrow> string) \<Rightarrow> 'a \<Rightarrow> string" where
  "key1 repr a = ''('' @ repr a @ '',)'' @ ''{}''"

definition key2 :: "('a \<Rightarrow> string) \<Rightarrow> 'a \<Rightarrow> 'a \<Rightarrow> string" where
  "key2 repr a b = ''('' @ repr a @ '', '' @ repr b @ '')'' @ ''{}''"

section \<open>The POI fetcher\<close>

text \<open>
  The reply of the map-data provider: a JSON object whose \<^verbatim>\<open>elements\<close> are objects
  with the keys of the provider's output format. A key that may be absent is an option;
  reading an absent key with \<^verbatim>\<open>d[k]\<close> raises \<^verbatim>\<open>KeyError\<close>, with \<^verbatim>\<open>d.get(k)\<close> it
  gives \<^verbatim>\<open>None\<close> or the default.
\<close>

record element =
  e_type :: "string option"
  e_id :: "int option"
  e_lat :: "rat option"
  e_lon :: "rat option"
  e_nodes :: "int list option"
  e_tags :: "(string \<times> string) list option"

record overpass_data =
  elements :: "element list option"

definition dict_get :: "('k \<times> 'v) list \<Rightarrow> 'k \<Rightarrow> 'v \<Rightarrow> 'v" where
  "dict_get d k dflt = (case map_of d k of None \<Rightarrow> dflt | Some v \<Rightarrow> v)"

definition queries :: "string list" where
  "queries = [''hotel'', ''restaurant'', ''attraction'']"

text \<open>The placeholder address, \<^verbatim>\<open>'Sin direccion'\<close> with its accented o in UTF-8.\<close>

definition sin_direccion :: string where
  "sin_direccion = ''Sin direcci'' @ [CHR 0xC3, CHR 0xB3] @ ''n''"

text \<open>
  The comprehension
  \<^verbatim>\<open>[node[fld] for node in data['elements'] if node['type'] == 'node' and node['id'] in element['nodes']]\<close>.
\<close>

fun comprehension :: "(element \<Rightarrow> rat option) \<Rightarrow> element \<Rightarrow> element list \<Rightarrow> exn + rat list" where
  "comprehension fld element [] = Inr []"
| "comprehension fld element (node # rest) =
     (case e_type node of
        None \<Rightarrow> Inl KeyError
      | Some ty \<Rightarrow>
          if ty = ''node'' then
            (case e_id node of
               None \<Rightarrow> Inl KeyError
             | Some i \<Rightarrow>
                 (case e_nodes element of
                    None \<Rightarrow> Inl KeyError
                  | Some ns \<Rightarrow>
                      if i \<in> set ns then
                        (case fld node of
                           None \<Rightarrow> Inl KeyError
                         | Some x \<Rightarrow>
                             (case comprehension fld element rest of
                                Inl e \<Rightarrow> Inl e
                              | Inr xs \<Rightarrow> Inr (x # xs)))
                      else comprehension fld element rest))
          else comprehension fld element rest)"

text \<open>
  The first half of the loop body: it binds \<^verbatim>\<open>lat, lon\<close>. The variables keep the value
  an earlier iteration gave them (\<open>None\<close>: not bound yet) when the element is neither a
  node nor a way. For a way, \<^verbatim>\<open>sum(lats)/len(lats)\<close> and \<^verbatim>\<open>sum(lons)/len(lons)\<close> are
  computed with the floating-point operations \<open>ar\<close>.
\<close>

datatype 'a flow = Raise exn | Continue | Next 'a

definition locate :: "arith \<Rightarrow> element list \<Rightarrow> (rat \<times> rat) option \<Rightarrow> element \<Rightarrow> (rat \<times> rat) option flow" where
  "locate ar all_elements bound element =
     (if e_type element = Some ''node'' then
        (case e_lat element of
           None \<Rightarrow> Raise KeyError
         | Some la \<Rightarrow> (case e_lon element of None \<Rightarrow> Raise KeyError | Some lo \<Rightarrow> Next (Some (la, lo))))
      else if e_type element = Some ''way'' then
        (case comprehension e_lat element all_elements of
           Inl e \<Rightarrow> Raise e
         | Inr lats \<Rightarrow>
             (case comprehension e_lon element all_elements of
                Inl e \<Rightarrow> Raise e
              | Inr lons \<Rightarrow>
                  if lats \<noteq> [] \<and> lons \<noteq> [] then
                    Next (Some (truediv ar (float_sum ar lats) (of_nat (length lats)),
                                truediv ar (float_sum ar lons) (of_nat (length lons))))
                  else Continue))
      else Next bound)"

text \<open>
  The loop body for one element: the POI it appends, if any, and the binding of
  \<^verbatim>\<open>lat, lon\<close> it leaves. Every exception is caught by the \<^verbatim>\<open>except Exception\<close> of the
  body and skips the element; reading \<^verbatim>\<open>lat\<close> before any iteration bound it raises
  \<^verbatim>\<open>UnboundLocalError\<close>. \<open>k\<close> is the raw random draw the rating uses.
\<close>

definition process_element ::
  "arith \<Rightarrow> string \<Rightarrow> element list \<Rightarrow> int \<Rightarrow> (rat \<times> rat) option \<Rightarrow> element \<Rightarrow> poi option \<times> (rat \<times> rat) option" where
  "process_element ar category all_elements k bound element =
     (case locate ar all_elements bound element of
        Raise e \<Rightarrow> (None, bound)
      | Continue \<Rightarrow> (None, bound)
      | Next bound' \<Rightarrow>
          (let tags = (case e_tags element of None \<Rightarrow> [] | Some t \<Rightarrow> t);
               nm = dict_get tags ''name'' ''Sin nombre''
           in if nm = ''Sin nombre'' then (None, bound')
              else
                (case bound' of
                   None \<Rightarrow> (None, bound')
                 | Some (la, lo) \<Rightarrow>
                     (Some \<lparr>name = nm,
                            location = (la, lo),
                            address = dict_get tags ''addr:street'' sin_direccion,
                            ptype = category,
                            rating = py_round 1 (uniform (7 / 2) 5 k),
                            description = dict_get tags ''description'' [],
                            phone = dict_get tags ''phone'' [],
                            website = dict_get tags ''website'' [],
                            opening_hours = dict_get tags ''opening_hours'' []\<rparr>,
                      bound'))))"

text \<open>
  The loop \<^verbatim>\<open>for element in data.get('elements', [])\<close>. \<open>rng\<close> numbers the raw draws of
  the random generator; the POI appended as number \<open>n\<close> uses draw \<open>n\<close>.
\<close>

fun build_pois ::
  "arith \<Rightarrow> string \<Rightarrow> element list \<Rightarrow> (nat \<Rightarrow> int) \<Rightarrow> (rat \<times> rat) option \<Rightarrow> poi list \<Rightarrow> element list \<Rightarrow> poi list" where
  "build_pois ar category all_elements rng bound pois [] = pois"
| "build_pois ar category all_elements rng bound pois (element # rest) =
     (case process_element ar category all_elements (rng (length pois)) bound element of
        (None, bound') \<Rightarrow> build_pois ar category all_elements rng bound' pois rest
      | (Some p, bound') \<Rightarrow> build_pois ar category all_elements rng bound' (pois @ [p]) rest)"

text \<open>\<^verbatim>\<open>data.get('elements', [])\<close>.\<close>

definition get_elements :: "overpass_data \<Rightarrow> element list" where
  "get_elements data = (case elements data of None \<Rightarrow> [] | Some es \<Rightarrow> es)"

text \<open>The body of \<^verbatim>\<open>fetch_pois\<close>, under the decorator.\<close>

definition fetch_pois_body ::
  "arith \<Rightarrow> rat \<Rightarrow> string \<Rightarrow> overpass_data response \<Rightarrow> (nat \<Rightarrow> int) \<Rightarrow> world \<Rightarrow> (exn + poi list) \<times> world" where
  "fetch_pois_body ar now category resp rng w =
     (if category \<notin> set queries then (Inr [], w\<lparr>warnings := warnings w @ [category]\<rparr>)
      else
        let cache_key = ''pois_'' @ category
        in if cache_contains now cache_key (POI_CACHE w) then
             (case getitem now cache_key (POI_CACHE w) of
                (r, c) \<Rightarrow> (r, w\<lparr>POI_CACHE := c\<rparr>))
           else
             (let w1 = w\<lparr>sent := sent w @ [Overpass]\<rparr>
              in case resp of
                   RequestFailed \<Rightarrow> (Inr [], w1)
                 | Reply data \<Rightarrow>
                     (let es = get_elements data;
                          pois = build_pois ar category es rng None [] es
                      in case setitem now cache_key pois (POI_CACHE w1) of
                           Inl e \<Rightarrow> (Inl e, w1)
                         | Inr c \<Rightarrow> (Inr pois, w1\<lparr>POI_CACHE := c\<rparr>))))"

text \<open>\<^verbatim>\<open>fetch_pois\<close> as the module exports it: decorated with \<^verbatim>\<open>@timed_lru_cache(timeout=3600)\<close>.\<close>

definition fetch_pois ::
  "(string \<Rightarrow> string) \<Rightarrow> arith \<Rightarrow> rat \<Rightarrow> string \<Rightarrow> overpass_data response \<Rightarrow> (nat \<Rightarrow> int) \<Rightarrow> world \<Rightarrow>
   (exn + poi list) \<times> world" where
  "fetch_pois repr ar now category resp rng w =
     wrapper fetch_pois_cache (\<lambda>c w. w\<lparr>fetch_pois_cache := c\<rparr>) now (key1 repr category)
       (fetch_pois_body ar now category resp rng) w"

section \<open>The weather fetcher\<close>

text \<open>
  The fields of the weather provider's reply that the source reads:
  \<^verbatim>\<open>data['weather'][0]['description']\<close>, \<^verbatim>\<open>data['main']['temp']\<close>,
  \<^verbatim>\<open>data['main']['feels_like']\<close>, \<^verbatim>\<open>data['main']['humidity']\<close>,
  \<^verbatim>\<open>data['wind']['speed']\<close> and \<^verbatim>\<open>data['weather'][0]['icon']\<close>. A path that does not
  resolve raises, and \<^verbatim>\<open>fetch_weather\<close> catches only \<^verbatim>\<open>RequestException\<close>.
\<close>

record weather_reply =
  r_description :: "string option"
  r_temp :: "rat option"
  r_feels_like :: "rat option"
  r_humidity :: "rat option"
  r_wind_speed :: "rat option"
  r_icon :: "string option"

definition subscript :: "'a option \<Rightarrow> exn + 'a" where
  "subscript x = (case x of None \<Rightarrow> Inl KeyError | Some v \<Rightarrow> Inr v)"

definition snapshot :: "(string \<Rightarrow> string) \<Rightarrow> weather_reply \<Rightarrow> exn + weather" where
  "snapshot capitalize data =
     (case subscript (r_description data) of Inl e \<Rightarrow> Inl e | Inr d \<Rightarrow>
     (case subscript (r_temp data) of Inl e \<Rightarrow> Inl e | Inr t \<Rightarrow>
     (case subscript (r_feels_like data) of Inl e \<Rightarrow> Inl e | Inr f \<Rightarrow>
     (case subscript (r_humidity data) of Inl e \<Rightarrow> Inl e | Inr h \<Rightarrow>
     (case subscript (r_wind_speed data) of Inl e \<Rightarrow> Inl e | Inr s \<Rightarrow>
     (case subscript (r_icon data) of Inl e \<Rightarrow> Inl e | Inr i \<Rightarrow>
        Inr \<lparr>w_description = capitalize d,
             w_temperature = round_half_even t,
             w_feels_like = round_half_even f,
             w_humidity = h,
             w_wind_speed = py_round 1 (s * (36 / 10)),
             w_icon = i\<rparr>))))))"

definition fetch_weather_body ::
  "(string \<Rightarrow> string) \<Rightarrow> string option \<Rightarrow> weather_reply response \<Rightarrow> world \<Rightarrow>
   (exn + weather option) \<times> world" where
  "fetch_weather_body capitalize api_key resp w =
     (if api_key = None \<or> api_key = Some [] then (Inr None, w)
      else
        let w1 = w\<lparr>sent := sent w @ [OpenWeatherMap]\<rparr>
        in case resp of
             RequestFailed \<Rightarrow> (Inr None, w1)
           | Reply data \<Rightarrow>
               (case snapshot capitalize data of
                  Inl e \<Rightarrow> (Inl e, w1)
                | Inr s \<Rightarrow> (Inr (Some s), w1)))"

text \<open>\<^verbatim>\<open>fetch_weather\<close> as exported: decorated with \<^verbatim>\<open>@timed_lru_cache(timeout=300)\<close>.\<close>

definition fetch_weather ::
  "(rat \<Rightarrow> string) \<Rightarrow> (string \<Rightarrow> string) \<Rightarrow> string option \<Rightarrow> rat \<Rightarrow> rat \<Rightarrow> rat \<Rightarrow>
   weather_reply response \<Rightarrow> world \<Rightarrow> (exn + weather option) \<times> world" where
  "fetch_weather repr capitalize api_key now lat lon resp w =
     wrapper fetch_weather_cache (\<lambda>c w. w\<lparr>fetch_weather_cache := c\<rparr>) now (key2 repr lat lon)
       (fetch_weather_body capitalize api_key resp) w"

section \<open>The route ranker\<close>

record route =
  poi :: poi
  distance :: rat

text \<open>
  \<open>geodesic\<close> is \<^verbatim>\<open>geopy.distance.geodesic(a, b).kilometers\<close>, a parameter: the distance,
  or the exception it raises on a coordinate it rejects. A POI whose distance raises is
  logged and left out.
\<close>

fun routes_loop ::
  "(rat \<times> rat \<Rightarrow> rat \<times> rat \<Rightarrow> exn + rat) \<Rightarrow> rat \<times> rat \<Rightarrow> route list \<Rightarrow> poi list \<Rightarrow> route list" where
  "routes_loop geodesic user_location routes [] = routes"
| "routes_loop geodesic user_location routes (p # pois) =
     (case geodesic user_location (location p) of
        Inl e \<Rightarrow> routes_loop geodesic user_location routes pois
      | Inr d \<Rightarrow>
          routes_loop geodesic user_location
            (routes @ [\<lparr>poi = p, distance = py_round 2 d\<rparr>]) pois)"

text \<open>\<^verbatim>\<open>routes.sort(key=lambda x: x['distance'])\<close>: Python's list sort is stable.\<close>

definition calculate_routes ::
  "(rat \<times> rat \<Rightarrow> rat \<times> rat \<Rightarrow> exn + rat) \<Rightarrow> rat \<times> rat \<Rightarrow> poi list \<Rightarrow> route list" where
  "calculate_routes geodesic user_location pois =
     sort_key distance (routes_loop geodesic user_location [] pois)"

text \<open>The two lines of \<^verbatim>\<open>get_pois\<close> that filter by rating and rank.\<close>

definition filter_and_rank ::
  "(rat \<times> rat \<Rightarrow> rat \<times> rat \<Rightarrow> exn + rat) \<Rightarrow> rat \<times> rat \<Rightarrow> rat \<Rightarrow> poi list \<Rightarrow> route list" where
  "filter_and_rank geodesic user_location r pois =
     calculate_routes geodesic user_location (filter (\<lambda>p. r \<le> rating p) pois)"

section \<open>The HTTP handlers\<close>

text \<open>
  \<^verbatim>\<open>request.args.get(k, type=float)\<close>: \<^verbatim>\<open>None\<close> when the parameter is missing or when
  \<^verbatim>\<open>float\<close> rejects its text; with \<^verbatim>\<open>default=d\<close>, \<open>d\<close> in both cases. \<open>float\<close> is
  Python's parser, a parameter.
\<close>

definition args_get :: "(string \<Rightarrow> rat option) \<Rightarrow> (string \<times> string) list \<Rightarrow> string \<Rightarrow> rat option" where
  "args_get float args k = (case map_of args k of None \<Rightarrow> None | Some s \<Rightarrow> float s)"

definition args_get_default :: "(string \<Rightarrow> rat option) \<Rightarrow> (string \<times> string) list \<Rightarrow> string \<Rightarrow> rat \<Rightarrow> rat" where
  "args_get_default float args k dflt = (case args_get float args k of None \<Rightarrow> dflt | Some x \<Rightarrow> x)"

definition DEFAULT_LAT :: rat where
  "DEFAULT_LAT = - (158403 / 10000)"

definition DEFAULT_LON :: rat where
  "DEFAULT_LON = - (700217 / 10000)"

datatype message =
  Faltan_parametros_de_ubicacion
| No_se_pudo_encontrar_una_ruta
| Error_al_obtener_la_ruta
| Error_de_conexion
| Error_interno_del_servidor
| Str exn

datatype body =
  Error_body message
| Routes_body "route list"
| Directions_body "rat list list" rat int

record osrm_route =
  o_coordinates :: "rat list list option"
  o_distance :: "rat option"
  o_duration :: "rat option"

record osrm_data =
  o_code :: "string option"
  o_routes :: "osrm_route list option"

text \<open>The decorator \<^verbatim>\<open>error_handler\<close>: an exception that escapes the handler becomes a status.\<close>

definition error_handler :: "(exn + body \<times> nat) \<times> world \<Rightarrow> (body \<times> nat) \<times> world" where
  "error_handler out =
     (case out of
        (Inl RequestException, w) \<Rightarrow> ((Error_body Error_de_conexion, 503), w)
      | (Inl e, w) \<Rightarrow> ((Error_body Error_interno_del_servidor, 500), w)
      | (Inr r, w) \<Rightarrow> (r, w))"

definition get_pois ::
  "(string \<Rightarrow> string) \<Rightarrow> arith \<Rightarrow> (string \<Rightarrow> rat option) \<Rightarrow> (rat \<times> rat \<Rightarrow> rat \<times> rat \<Rightarrow> exn + rat) \<Rightarrow>
   rat \<Rightarrow> string \<Rightarrow> (string \<times> string) list \<Rightarrow> overpass_data response \<Rightarrow> (nat \<Rightarrow> int) \<Rightarrow> world \<Rightarrow>
   (body \<times> nat) \<times> world" where
  "get_pois repr ar float geodesic now category args resp rng w =
     error_handler
       (let lat = args_get_default float args ''lat'' DEFAULT_LAT;
            lon = args_get_default float args ''lon'' DEFAULT_LON;
            r = args_get_default float args ''rating'' 0
        in case fetch_pois repr ar now category resp rng w of
             (Inl e, w1) \<Rightarrow> (Inr (Error_body (Str e), 500), w1)
           | (Inr pois, w1) \<Rightarrow>
               (Inr (Routes_body (filter_and_rank geodesic (lat, lon) r pois), 200), w1))"

definition get_directions_body ::
  "(string \<Rightarrow> rat option) \<Rightarrow> (string \<times> string) list \<Rightarrow> osrm_data response \<Rightarrow> world \<Rightarrow>
   (exn + body \<times> nat) \<times> world" where
  "get_directions_body float args resp w =
     (let start_lat = args_get float args ''start_lat'';
          start_lon = args_get float args ''start_lon'';
          end_lat = args_get float args ''end_lat'';
          end_lon = args_get float args ''end_lon''
      in if None \<in> set [start_lat, start_lon, end_lat, end_lon] then
           (Inr (Error_body Faltan_parametros_de_ubicacion, 400), w)
         else
           let w1 = w\<lparr>sent := sent w @ [OSRM]\<rparr>
           in case resp of
                RequestFailed \<Rightarrow> (Inr (Error_body Error_al_obtener_la_ruta, 503), w1)
              | Reply data \<Rightarrow>
                  (case o_code data of
                     None \<Rightarrow> (Inl KeyError, w1)
                   | Some c \<Rightarrow>
                       if c = ''Ok'' then
                         (case o_routes data of
                            None \<Rightarrow> (Inl KeyError, w1)
                          | Some [] \<Rightarrow> (Inl IndexError, w1)
                          | Some (r # _) \<Rightarrow>
                              (case subscript (o_coordinates r) of Inl e \<Rightarrow> (Inl e, w1) | Inr g \<Rightarrow>
                              (case subscript (o_distance r) of Inl e \<Rightarrow> (Inl e, w1) | Inr d \<Rightarrow>
                              (case subscript (o_duration r) of Inl e \<Rightarrow> (Inl e, w1) | Inr t \<Rightarrow>
                                 (Inr (Directions_body g (py_round 2 (d / 1000))
                                         (round_half_even (t / 60)), 200), w1)))))
                       else (Inr (Error_body No_se_pudo_encontrar_una_ruta, 404), w1)))"

definition get_directions ::
  "(string \<Rightarrow> rat option) \<Rightarrow> (string \<times> string) list \<Rightarrow> osrm_data response \<Rightarrow> world \<Rightarrow>
   (body \<times> nat) \<times> world" where
  "get_directions float args resp w = error_handler (get_directions_body float args resp w)"

section \<open>Runs of the module\<close>

text \<open>
  What a process does between start-up and a given moment: a sequence of calls of the
  cached fetchers and of the directions handler, each with the clock reading, the
  arguments and what the outside world would answer: the provider's response, used
  only if the call sends a request, and the raw draws of the random generator. \<open>env\<close>
  holds Python's \<^verbatim>\<open>repr\<close> on strings and floats, its floating-point arithmetic,
  \<^verbatim>\<open>str.capitalize\<close>, \<^verbatim>\<open>float\<close> and the configured API key. The handler \<^verbatim>\<open>get_pois\<close> changes the state only through
  \<^verbatim>\<open>fetch_pois\<close>, and \<^verbatim>\<open>get_weather\<close> only through \<^verbatim>\<open>fetch_weather\<close>.
\<close>

record env =
  env_repr_str :: "string \<Rightarrow> string"
  env_repr_float :: "rat \<Rightarrow> string"
  env_arith :: arith
  env_capitalize :: "string \<Rightarrow> string"
  env_float :: "string \<Rightarrow> rat option"
  env_api_key :: "string option"

datatype call =
  Fetch_pois rat string "overpass_data response" "nat \<Rightarrow> int"
| Fetch_weather rat rat rat "weather_reply response"
| Get_directions "(string \<times> string) list" "osrm_data response"

fun step :: "env \<Rightarrow> call \<Rightarrow> world \<Rightarrow> world" where
  "step E (Fetch_pois now category resp rng) w = snd (fetch_pois (env_repr_str E) (env_arith E) now category resp rng w)"
| "step E (Fetch_weather now lat lon resp) w =
     snd (fetch_weather (env_repr_float E) (env_capitalize E) (env_api_key E) now lat lon resp w)"
| "step E (Get_directions args resp) w = snd (get_directions (env_float E) args resp w)"

definition run :: "env \<Rightarrow> call list \<Rightarrow> world" where
  "run E calls = fold (step E) calls initial_world"

section \<open>Notions the properties are stated with\<close>

text \<open>
  The distance a POI is ranked with: the rounded geodesic distance, or \<open>None\<close> when
  the distance computation raises and the POI is left out.
\<close>

definition route_distance :: "(rat \<times> rat \<Rightarrow> rat \<times> rat \<Rightarrow> exn + rat) \<Rightarrow> rat \<times> rat \<Rightarrow> poi \<Rightarrow> rat option" where
  "route_distance geodesic user_location p =
     (case geodesic user_location (location p) of Inl e \<Rightarrow> None | Inr d \<Rightarrow> Some (py_round 2 d))"

text \<open>A POI record with the given name, location and rating, for concrete instances.\<close>

definition example_poi :: "string \<Rightarrow> rat \<times> rat \<Rightarrow> rat \<Rightarrow> poi" where
  "example_poi nm loc r =
     \<lparr>name = nm, location = loc, address = sin_direccion, ptype = ''hotel'', rating = r,
      description = [], phone = [], website = [], opening_hours = []\<rparr>"

text \<open>A stand-in for the geodesic distance on concrete instances: the difference in longitude.\<close>

definition example_geodesic :: "rat \<times> rat \<Rightarrow> rat \<times> rat \<Rightarrow> exn + rat" where
  "example_geodesic a b = Inr \<bar>snd a - snd b\<bar>"

text \<open>
  The constituent points of a way, in the words of the specification: the node
  elements of the reply whose id the way lists. Their arithmetic mean is the sum
  divided by the count.
\<close>

definition is_constituent :: "element \<Rightarrow> element \<Rightarrow> bool" where
  "is_constituent way n =
     (e_type n = Some ''node'' \<and>
      (case e_id n of
         None \<Rightarrow> False
       | Some i \<Rightarrow> (case e_nodes way of None \<Rightarrow> False | Some ns \<Rightarrow> i \<in> set ns)))"

definition constituent_points :: "element list \<Rightarrow> element \<Rightarrow> element list" where
  "constituent_points all_elements way = filter (is_constituent way) all_elements"

definition arithmetic_mean :: "rat list \<Rightarrow> rat" where
  "arithmetic_mean xs = sum_list xs / of_nat (length xs)"

text \<open>
  The mean as the source computes it, \<^verbatim>\<open>sum(xs)/len(xs)\<close> in floating-point arithmetic,
  and the replies in which every element has a \<^verbatim>\<open>type\<close> and every node an \<^verbatim>\<open>id\<close>.
\<close>

definition float_mean :: "arith \<Rightarrow> rat list \<Rightarrow> rat" where
  "float_mean ar xs = truediv ar (float_sum ar xs) (of_nat (length xs))"

definition typed_elements :: "element list \<Rightarrow> bool" where
  "typed_elements es = (\<forall>e \<in> set es. e_type e \<noteq> None \<and> (e_type e = Some ''node'' \<longrightarrow> e_id e \<noteq> None))"

text \<open>Elements for concrete instances: a node with id and coordinate, a way with its node ids.\<close>

definition example_node :: "int \<Rightarrow> rat \<Rightarrow> rat \<Rightarrow> (string \<times> string) list option \<Rightarrow> element" where
  "example_node i la lo tg =
     \<lparr>e_type = Some ''node'', e_id = Some i, e_lat = Some la, e_lon = Some lo, e_nodes = None,
      e_tags = tg\<rparr>"

definition example_way :: "int \<Rightarrow> int list \<Rightarrow> (string \<times> string) list option \<Rightarrow> element" where
  "example_way i ns tg =
     \<lparr>e_type = Some ''way'', e_id = Some i, e_lat = None, e_lon = None, e_nodes = Some ns,
      e_tags = tg\<rparr>"

text \<open>Every entry of a cache satisfies a property of its key and value.\<close>

definition entries_hold :: "('k \<Rightarrow> 'v \<Rightarrow> bool) \<Rightarrow> ('k, 'v) ttl_cache \<Rightarrow> bool" where
  "entries_hold Q c = (\<forall>l \<in> set (links c). Q (fst l) (fst (snd l)))"

text \<open>
  A cache is a tier of capacity \<open>m\<close> and time-to-live \<open>t\<close>: it was built with these
  parameters, no key occurs twice, and it holds at most \<open>m\<close> entries. The module's
  four caches are tiers of capacity 100.
\<close>

definition tier :: "nat \<Rightarrow> rat \<Rightarrow> ('k, 'v) ttl_cache \<Rightarrow> bool" where
  "tier m t c = (maxsize c = m \<and> ttl c = t \<and> distinct (map fst (links c)) \<and> length (links c) \<le> m)"

definition tiers_ok :: "world \<Rightarrow> bool" where
  "tiers_ok w =
     (tier 100 3600 (CACHE w) \<and> tier 100 86400 (POI_CACHE w) \<and>
      tier 100 3600 (fetch_pois_cache w) \<and> tier 100 300 (fetch_weather_cache w))"

text \<open>
  The name the loop body reads from an element, \<^verbatim>\<open>tags.get('name', 'Sin nombre')\<close>.
\<close>

definition element_name :: "element \<Rightarrow> string" where
  "element_name e = dict_get (case e_tags e of None \<Rightarrow> [] | Some t \<Rightarrow> t) ''name'' ''Sin nombre''"

text \<open>
  What the loop body yields for each element of a reply in turn: the record it appends,
  or \<open>None\<close> when it skips the element. \<open>n\<close> counts the records appended so far, which
  numbers the random draw, and \<open>bound\<close> is the binding of \<^verbatim>\<open>lat, lon\<close> that the
  iterations so far have left.
\<close>

fun outcomes ::
  "arith \<Rightarrow> string \<Rightarrow> element list \<Rightarrow> (nat \<Rightarrow> int) \<Rightarrow> (rat \<times> rat) option \<Rightarrow> nat \<Rightarrow> element list \<Rightarrow>
   poi option list" where
  "outcomes ar category all_elements rng bound n [] = []"
| "outcomes ar category all_elements rng bound n (element # rest) =
     (case process_element ar category all_elements (rng n) bound element of
        (None, bound') \<Rightarrow> None # outcomes ar category all_elements rng bound' n rest
      | (Some p, bound') \<Rightarrow> Some p # outcomes ar category all_elements rng bound' (Suc n) rest)"

definition reply_outcomes :: "arith \<Rightarrow> string \<Rightarrow> (nat \<Rightarrow> int) \<Rightarrow> overpass_data \<Rightarrow> poi option list" where
  "reply_outcomes ar category rng data =
     outcomes ar category (get_elements data) rng None 0 (get_elements data)"

text \<open>
  A quoting function for strings, a unary rendering of the integer part of a number, and
  an environment with them and with binary64 arithmetic, for concrete instances.
\<close>

definition example_repr :: "string \<Rightarrow> string" where
  "example_repr s = [CHR 0x27] @ s @ [CHR 0x27]"

definition example_repr_float :: "rat \<Rightarrow> string" where
  "example_repr_float x = replicate (nat \<lfloor>x\<rfloor>) CHR ''1''"

definition example_env :: env where
  "example_env = \<lparr>env_repr_str = example_repr, env_repr_float = example_repr_float,
     env_arith = binary64, env_capitalize = (\<lambda>s. s), env_float = (\<lambda>s. None), env_api_key = Some ''k''\<rparr>"

text \<open>A full tier for concrete instances: keys 0 to 99, from the least to the most recently used.\<close>

definition example_full_cache :: "(nat, unit) ttl_cache" where
  "example_full_cache = \<lparr>maxsize = 100, ttl = 5, links = map (\<lambda>i. (i, (), 10)) [0..<100]\<rparr>"

text \<open>
  An entry \<open>(k, v, e)\<close> is in the cache with at most \<open>n\<close> entries used more recently.
\<close>

definition recent :: "'k \<Rightarrow> 'v \<Rightarrow> rat \<Rightarrow> nat \<Rightarrow> ('k, 'v) ttl_cache \<Rightarrow> bool" where
  "recent k v e n c = (\<exists>pre post. links c = pre @ (k, v, e) # post \<and> length post \<le> n)"

text \<open>The calls of a cached fetcher, and the calls whose clock reading is before \<open>T\<close>.\<close>

fun is_fetch_pois :: "call \<Rightarrow> bool" where
  "is_fetch_pois (Fetch_pois now c resp rng) = True"
| "is_fetch_pois _ = False"

fun is_fetch_weather :: "call \<Rightarrow> bool" where
  "is_fetch_weather (Fetch_weather now lat lon resp) = True"
| "is_fetch_weather _ = False"

fun called_before :: "rat \<Rightarrow> call \<Rightarrow> bool" where
  "called_before T (Fetch_pois now c resp rng) = (now < T)"
| "called_before T (Fetch_weather now lat lon resp) = (now < T)"
| "called_before T (Get_directions args resp) = True"

text \<open>
  Runs for concrete instances: \<open>n\<close> calls of \<^verbatim>\<open>fetch_pois\<close> with \<open>n\<close> different
  invalid categories, and \<open>n\<close> calls of \<^verbatim>\<open>fetch_weather\<close> with \<open>n\<close> different latitudes,
  all at clock reading 0 and with a failing provider.
\<close>

definition other_pois_calls :: "nat \<Rightarrow> call list" where
  "other_pois_calls n =
     map (\<lambda>i. Fetch_pois 0 (replicate (Suc i) CHR ''x'') RequestFailed (\<lambda>n. 0)) [0..<n]"

definition other_weather_calls :: "nat \<Rightarrow> call list" where
  "other_weather_calls n = map (\<lambda>i. Fetch_weather 0 (of_nat (Suc i)) 0 RequestFailed) [0..<n]"

text \<open>A reply of the weather provider and the snapshot built from it.\<close>

definition example_weather_reply :: weather_reply where
  "example_weather_reply =
     \<lparr>r_description = Some ''sol'', r_temp = Some 20, r_feels_like = Some 19, r_humidity = Some 50,
      r_wind_speed = Some 5, r_icon = Some ''01d''\<rparr>"

definition example_weather :: weather where
  "example_weather =
     \<lparr>w_description = ''sol'', w_temperature = 20, w_feels_like = 19, w_humidity = 50,
      w_wind_speed = 18, w_icon = ''01d''\<rparr>"

section \<open>The directions handler rejects incomplete requests\<close>

text \<open>
  C9: when one of the four parameters \<^verbatim>\<open>start_lat\<close>, \<^verbatim>\<open>start_lon\<close>, \<^verbatim>\<open>end_lat\<close>,
  \<^verbatim>\<open>end_lon\<close> is missing from the request or its text is not a float, the handler
  answers status 400 with the error payload and leaves the module state as it was: no
  request to the routing provider is logged.
\<close>

theorem directions_missing_parameter_400:
  assumes "k \<in> set [''start_lat'', ''start_lon'', ''end_lat'', ''end_lon'']"
    and "map_of args k = None \<or> (\<exists>s. map_of args k = Some s \<and> float s = None)"
  shows "get_directions float args resp w = ((Error_body Faltan_parametros_de_ubicacion, 400), w)"
proof -
  from assms(2) have "args_get float args k = None"
    by (auto simp: args_get_def)
  with assms(1) have "None \<in> set [args_get float args ''start_lat'', args_get float args ''start_lon'',
      args_get float args ''end_lat'', args_get float args ''end_lon'']"
    by auto
  then show ?thesis
    by (simp add: get_directions_def get_directions_body_def error_handler_def Let_def del: set_simps)
qed

theorem directions_missing_parameter_400_witness:
  "get_directions (\<lambda>s. Some 1) [(''start_lat'', ''1''), (''start_lon'', ''1''), (''end_lon'', ''1'')]
     (Reply \<lparr>o_code = Some ''Ok'', o_routes = None\<rparr>) initial_world =
   ((Error_body Faltan_parametros_de_ubicacion, 400), initial_world)"
  using directions_missing_parameter_400 [of "''end_lat''" "[(''start_lat'', ''1''), (''start_lon'', ''1''), (''end_lon'', ''1'')]"
      "\<lambda>s. Some 1" "Reply \<lparr>o_code = Some ''Ok'', o_routes = None\<rparr>" initial_world]
  by simp

section \<open>Filtering and ranking\<close>

lemma routes_loop_append:
  "routes_loop g u acc ps =
     acc @ List.map_filter (\<lambda>p. map_option (\<lambda>d. \<lparr>poi = p, distance = d\<rparr>) (route_distance g u p)) ps"
  by (induction ps arbitrary: acc) (auto simp: List.map_filter_simps route_distance_def split: sum.splits)

lemma ties_of_map_filter:
  "map poi (filter (\<lambda>x. distance x = d)
      (List.map_filter (\<lambda>p. map_option (\<lambda>d. \<lparr>poi = p, distance = d\<rparr>) (route_distance g u p)) ps))
   = filter (\<lambda>p. route_distance g u p = Some d) ps"
  by (induction ps) (auto simp: List.map_filter_simps split: option.splits)

lemma pois_of_map_filter:
  "x \<in> set (List.map_filter (\<lambda>p. map_option (\<lambda>d. \<lparr>poi = p, distance = d\<rparr>) (route_distance g u p)) ps)
   \<Longrightarrow> poi x \<in> set ps \<and> route_distance g u (poi x) = Some (distance x)"
  by (induction ps) (auto simp: List.map_filter_simps split: option.splits)

text \<open>
  C5: for every user coordinate, POI list and threshold \<open>r\<close>, the routes that the
  \<^verbatim>\<open>/pois\<close> handler computes (filter by rating, then \<^verbatim>\<open>calculate_routes\<close>) hold only
  POIs with rating at least \<open>r\<close>, are sorted by non-decreasing distance, and the POIs at
  any one distance \<open>d\<close> stand in the order the input list has them.
\<close>

theorem filter_and_rank_sorted_stable:
  "(\<forall>x \<in> set (filter_and_rank g u r pois). r \<le> rating (poi x)) \<and>
   sorted (map distance (filter_and_rank g u r pois)) \<and>
   (\<forall>d. map poi (filter (\<lambda>x. distance x = d) (filter_and_rank g u r pois)) =
        filter (\<lambda>p. r \<le> rating p \<and> route_distance g u p = Some d) pois)"
proof (intro conjI allI ballI)
  fix x assume "x \<in> set (filter_and_rank g u r pois)"
  then have "poi x \<in> set (filter (\<lambda>p. r \<le> rating p) pois)"
    using pois_of_map_filter [of x g u "filter (\<lambda>p. r \<le> rating p) pois"]
    by (simp add: filter_and_rank_def calculate_routes_def routes_loop_append)
  then show "r \<le> rating (poi x)" by simp
next
  show "sorted (map distance (filter_and_rank g u r pois))"
    by (simp add: filter_and_rank_def calculate_routes_def)
next
  fix d
  have "filter (\<lambda>x. distance x = d) (filter_and_rank g u r pois) =
        filter (\<lambda>x. distance x = d) (routes_loop g u [] (filter (\<lambda>p. r \<le> rating p) pois))"
    unfolding filter_and_rank_def calculate_routes_def by (rule sort_key_stable)
  then show "map poi (filter (\<lambda>x. distance x = d) (filter_and_rank g u r pois)) =
        filter (\<lambda>p. r \<le> rating p \<and> route_distance g u p = Some d) pois"
    by (simp add: routes_loop_append ties_of_map_filter conj_commute)
qed

lemma example_ranking:
  "filter_and_rank example_geodesic (0, 2) 4
     [example_poi ''A'' (0, 0) 4, example_poi ''B'' (0, 1) 5, example_poi ''C'' (0, 3) 3,
      example_poi ''D'' (0, 4) (9 / 2)] =
   [\<lparr>poi = example_poi ''B'' (0, 1) 5, distance = 1\<rparr>,
    \<lparr>poi = example_poi ''A'' (0, 0) 4, distance = 2\<rparr>,
    \<lparr>poi = example_poi ''D'' (0, 4) (9 / 2), distance = 2\<rparr>]"
  by (simp add: filter_and_rank_def calculate_routes_def example_geodesic_def example_poi_def
      py_round_def round_half_even_def)

theorem filter_and_rank_sorted_stable_witness:
  "map poi (filter (\<lambda>x. distance x = 2)
     (filter_and_rank example_geodesic (0, 2) 4
        [example_poi ''A'' (0, 0) 4, example_poi ''B'' (0, 1) 5, example_poi ''C'' (0, 3) 3,
         example_poi ''D'' (0, 4) (9 / 2)])) =
   [example_poi ''A'' (0, 0) 4, example_poi ''D'' (0, 4) (9 / 2)] \<and>
   4 \<le> rating (poi (hd (filter_and_rank example_geodesic (0, 2) 4
        [example_poi ''A'' (0, 0) 4, example_poi ''B'' (0, 1) 5, example_poi ''C'' (0, 3) 3,
         example_poi ''D'' (0, 4) (9 / 2)])))"
  using filter_and_rank_sorted_stable [of example_geodesic "(0, 2)" 4
      "[example_poi ''A'' (0, 0) 4, example_poi ''B'' (0, 1) 5, example_poi ''C'' (0, 3) 3,
        example_poi ''D'' (0, 4) (9 / 2)]"]
  by (simp add: example_ranking)

section \<open>Floating-point arithmetic in binary64\<close>

lemma power_int_2_less_cancel: "power_int (2::rat) m < power_int 2 n \<Longrightarrow> m < n"
  using power_int_increasing [of n m "2::rat"] by (cases "m < n") auto

lemma of_int_bitlen_bounds:
  assumes "0 < p"
  shows "power_int (2::rat) (bitlen p - 1) \<le> of_int p \<and> of_int p < power_int (2::rat) (bitlen p)"
proof -
  from assms have b: "1 \<le> bitlen p" by (auto simp: bitlen_alt_def)
  from bitlen_bounds [OF assms]
  have "(of_int (2 ^ nat (bitlen p - 1)) :: rat) \<le> of_int p" "(of_int p :: rat) < of_int (2 ^ nat (bitlen p))"
    by (simp_all only: of_int_le_iff of_int_less_iff)
  with b show ?thesis by (simp add: power_int_def)
qed

lemma ilog2_eq:
  assumes "power_int 2 e \<le> \<bar>x\<bar>" "\<bar>x\<bar> < power_int 2 (e + 1)"
  shows "ilog2 x = e"
proof -
  obtain p q where pq: "quotient_of \<bar>x\<bar> = (p, q)" by force
  then have q: "0 < q" and x: "\<bar>x\<bar> = of_int p / of_int q"
    by (simp_all add: quotient_of_denom_pos quotient_of_div)
  have "(0::rat) < power_int 2 e" by simp
  with assms(1) have "0 < \<bar>x\<bar>" by linarith
  with x q have p: "0 < p" by (simp add: zero_less_divide_iff)
  define d where "d = bitlen p - bitlen q"
  note bp = of_int_bitlen_bounds [OF p] and bq = of_int_bitlen_bounds [OF q]
  have qpos: "(0::rat) < of_int q" using q by simp
  have "\<bar>x\<bar> < power_int 2 (bitlen p) / power_int 2 (bitlen q - 1)"
  proof -
    have "\<bar>x\<bar> < power_int (2::rat) (bitlen p) / of_int q"
      unfolding x using bp qpos by (simp add: divide_strict_right_mono)
    also have "\<dots> \<le> power_int 2 (bitlen p) / power_int 2 (bitlen q - 1)"
      using bq qpos by (intro divide_left_mono) simp_all
    finally show ?thesis .
  qed
  then have up: "\<bar>x\<bar> < power_int 2 (d + 1)"
    by (simp add: d_def power_int_diff [symmetric] algebra_simps)
  have "power_int 2 (bitlen p - 1) / power_int 2 (bitlen q) < \<bar>x\<bar>"
  proof -
    have "power_int (2::rat) (bitlen p - 1) / power_int 2 (bitlen q) < power_int 2 (bitlen p - 1) / of_int q"
      using bq qpos by (intro divide_strict_left_mono) simp_all
    also have "\<dots> \<le> \<bar>x\<bar>"
      unfolding x using bp qpos by (simp add: divide_right_mono)
    finally show ?thesis .
  qed
  then have lo: "power_int 2 (d - 1) < \<bar>x\<bar>"
    by (simp add: d_def power_int_diff [symmetric] algebra_simps)
  from lo assms(2) have "power_int (2::rat) (d - 1) < power_int 2 (e + 1)" by linarith
  then have d1: "d \<le> e + 1" using power_int_2_less_cancel by fastforce
  from assms(1) up have "power_int (2::rat) e < power_int 2 (d + 1)" by linarith
  then have d2: "e \<le> d" using power_int_2_less_cancel by fastforce
  show ?thesis
  proof (cases "d = e")
    case True
    with assms(1) pq show ?thesis by (simp add: ilog2_def d_def)
  next
    case False
    with d1 d2 have de: "d = e + 1" by simp
    with assms(2) have "\<not> power_int 2 d \<le> \<bar>x\<bar>" by simp
    with pq de show ?thesis by (simp add: ilog2_def d_def Let_def)
  qed
qed

lemma floor_numeral_divide:
  "\<lfloor>numeral a / numeral b :: rat\<rfloor> = numeral a div numeral b"
  by (metis floor_divide_of_int_eq of_int_numeral)

lemma double_round_eq:
  assumes "power_int 2 e \<le> \<bar>x\<bar>" "\<bar>x\<bar> < power_int 2 (e + 1)" "- 1022 \<le> e"
  shows "double_round x = of_int (round_half_even (x / power_int 2 (e - 52))) * power_int 2 (e - 52)"
proof -
  have "x \<noteq> 0"
  proof
    assume "x = 0"
    with assms(1) have "power_int (2::rat) e \<le> 0" by simp
    moreover have "(0::rat) < power_int 2 e" by simp
    ultimately show False by linarith
  qed
  with ilog2_eq [OF assms(1,2)] assms(3) show ?thesis
    by (simp add: double_round_def max_def Let_def)
qed

lemma double_tenth: "double_round (1 / 10) = 3602879701896397 / 2 ^ 55"
  by (subst double_round_eq [of "- 4"])
     (simp_all add: round_half_even_def Let_def floor_numeral_divide)

lemma double_fifth: "double_round (1 / 5) = 3602879701896397 / 2 ^ 54"
  by (subst double_round_eq [of "- 3"])
     (simp_all add: round_half_even_def Let_def floor_numeral_divide)

lemma double_round_0: "double_round 0 = 0"
  by (simp add: double_round_def)

lemma float_mean_pair:
  "float_mean binary64 [a, b] = double_round (double_round (double_round (0 + a) + b) / 2)"
  by (simp add: float_mean_def binary64_def)

lemma double_round_tenth: "double_round (0 + 3602879701896397 / 2 ^ 55) = 3602879701896397 / 2 ^ 55"
  by (subst double_round_eq [of "- 4"])
     (simp_all add: round_half_even_def Let_def floor_numeral_divide)

lemma double_round_sum: "double_round (3602879701896397 / 2 ^ 55 + 3602879701896397 / 2 ^ 54) = 5404319552844596 / 2 ^ 54"
  by (subst double_round_eq [of "- 2"])
     (simp_all add: round_half_even_def Let_def floor_numeral_divide)

lemma double_round_half_sum: "double_round (5404319552844596 / 2 ^ 54 / 2) = 5404319552844596 / 2 ^ 55"
  by (subst double_round_eq [of "- 3"])
     (simp_all add: round_half_even_def Let_def floor_numeral_divide)

lemma float_mean_tenth_fifth:
  "float_mean binary64 [double_round (1 / 10), double_round (1 / 5)] = 5404319552844596 / 2 ^ 55"
  unfolding float_mean_pair double_tenth double_fifth double_round_tenth double_round_sum
    double_round_half_sum ..

lemma double_round_1: "double_round 1 = 1"
  by (subst double_round_eq [of 0]) (simp_all add: round_half_even_def Let_def)

lemma double_round_2: "double_round 2 = 2"
  by (subst double_round_eq [of 1]) (simp_all add: round_half_even_def Let_def)

lemma double_round_4: "double_round 4 = 4"
  by (subst double_round_eq [of 2]) (simp_all add: round_half_even_def Let_def)

lemma float_mean_0_2: "float_mean binary64 [0, 2] = 1"
  by (simp add: float_mean_pair double_round_0 double_round_1 double_round_2)

lemma float_mean_0_4: "float_mean binary64 [0, 4] = 2"
  by (simp add: float_mean_pair double_round_0 double_round_2 double_round_4)

section \<open>The location of a way\<close>

lemma constituent_points_Cons:
  "constituent_points (n # es) way =
     (if is_constituent way n then n # constituent_points es way else constituent_points es way)"
  by (simp add: constituent_points_def)

lemma comprehension_constituents:
  "comprehension fld way es = Inr xs \<Longrightarrow> map fld (constituent_points es way) = map Some xs"
proof (induction es arbitrary: xs)
  case Nil
  then show ?case by (simp add: constituent_points_def)
next
  case (Cons n es)
  show ?case
  proof (cases "is_constituent way n")
    case True
    with Cons.prems obtain x ys where "fld n = Some x" "comprehension fld way es = Inr ys" "xs = x # ys"
      by (auto simp: is_constituent_def split: option.splits sum.splits)
    with True Cons.IH [of ys] show ?thesis by (simp add: constituent_points_Cons)
  next
    case False
    with Cons.prems have "comprehension fld way es = Inr xs"
      by (auto simp: is_constituent_def split: option.splits sum.splits if_splits)
    with False Cons.IH [of xs] show ?thesis by (simp add: constituent_points_Cons)
  qed
qed

lemma comprehension_total:
  assumes "typed_elements es" "e_nodes way = Some ns"
    and "map fld (constituent_points es way) = map Some xs"
  shows "comprehension fld way es = Inr xs"
  using assms(1,3)
proof (induction es arbitrary: xs)
  case Nil
  then show ?case by (simp add: constituent_points_def)
next
  case (Cons n es)
  from Cons.prems(1) have te: "typed_elements es" and ty: "e_type n \<noteq> None"
    and idn: "e_type n = Some ''node'' \<Longrightarrow> e_id n \<noteq> None"
    by (simp_all add: typed_elements_def)
  show ?case
  proof (cases "is_constituent way n")
    case True
    with Cons.prems(2) obtain x ys where x: "fld n = Some x" "xs = x # ys"
      "map fld (constituent_points es way) = map Some ys"
      by (auto simp: constituent_points_Cons map_eq_Cons_conv)
    from Cons.IH [OF te x(3)] True x assms(2) show ?thesis
      by (auto simp: is_constituent_def split: option.splits)
  next
    case False
    with Cons.prems(2) have "map fld (constituent_points es way) = map Some xs"
      by (simp add: constituent_points_Cons)
    from Cons.IH [OF te this] False ty idn assms(2) show ?thesis
      by (auto simp: is_constituent_def split: option.splits)
  qed
qed

lemma constituents_have_nodes:
  "constituent_points es way \<noteq> [] \<Longrightarrow> \<exists>ns. e_nodes way = Some ns"
  by (induction es) (auto simp: constituent_points_Cons constituent_points_def is_constituent_def
      split: option.splits if_splits)

text \<open>
  C7, as amended: in the loop body of \<^verbatim>\<open>fetch_pois\<close>, for an element of type
  \<^verbatim>\<open>way\<close>. When the body appends a POI, the way has constituent points, all of them
  carry a latitude and a longitude, and the POI's location is the pair of
  \<^verbatim>\<open>sum(lats)/len(lats)\<close> and \<^verbatim>\<open>sum(lons)/len(lons)\<close>, as floating-point arithmetic
  computes them from these latitudes and longitudes in the order of the reply. When the
  way has no constituent point in the reply, the element is discarded and the loop state
  is unchanged. And in a reply whose elements all have a type and whose nodes all have an
  id, a way with constituent points, all of them with latitude and longitude, and with a
  name other than the placeholder does yield a POI, located at that mean.
\<close>

theorem way_location_is_mean_of_constituent_points:
  assumes "e_type way = Some ''way''"
  shows "(process_element ar category all_elements k bound way = (Some p, bound') \<longrightarrow>
            constituent_points all_elements way \<noteq> [] \<and>
            (\<exists>lats lons.
               map e_lat (constituent_points all_elements way) = map Some lats \<and>
               map e_lon (constituent_points all_elements way) = map Some lons \<and>
               location p = (float_mean ar lats, float_mean ar lons))) \<and>
         (constituent_points all_elements way = [] \<longrightarrow>
            process_element ar category all_elements k bound way = (None, bound)) \<and>
         (typed_elements all_elements \<and> constituent_points all_elements way \<noteq> [] \<and>
          map e_lat (constituent_points all_elements way) = map Some ys \<and>
          map e_lon (constituent_points all_elements way) = map Some xs \<and>
          element_name way \<noteq> ''Sin nombre'' \<longrightarrow>
            (\<exists>q. process_element ar category all_elements k bound way =
                    (Some q, Some (float_mean ar ys, float_mean ar xs)) \<and>
                  location q = (float_mean ar ys, float_mean ar xs) \<and>
                  name q = element_name way))"
proof (intro conjI; rule impI)
  assume P: "process_element ar category all_elements k bound way = (Some p, bound')"
  from P assms obtain lats lons where
    L: "comprehension e_lat way all_elements = Inr lats" "comprehension e_lon way all_elements = Inr lons"
      "lats \<noteq> []" "lons \<noteq> []" and
    N: "locate ar all_elements bound way = Next (Some (float_mean ar lats, float_mean ar lons))"
    by (auto simp: process_element_def locate_def float_mean_def split: sum.splits if_splits flow.splits)
  from P N have "location p = (float_mean ar lats, float_mean ar lons)"
    by (auto simp: process_element_def Let_def split: if_splits)
  moreover from L have "constituent_points all_elements way \<noteq> []"
    using comprehension_constituents [of e_lat way all_elements lats] by auto
  ultimately show "constituent_points all_elements way \<noteq> [] \<and>
            (\<exists>lats lons.
               map e_lat (constituent_points all_elements way) = map Some lats \<and>
               map e_lon (constituent_points all_elements way) = map Some lons \<and>
               location p = (float_mean ar lats, float_mean ar lons))"
    using L comprehension_constituents by blast
next
  assume E: "constituent_points all_elements way = []"
  show "process_element ar category all_elements k bound way = (None, bound)"
  proof (cases "comprehension e_lat way all_elements")
    case (Inl e)
    with assms show ?thesis by (simp add: process_element_def locate_def)
  next
    case (Inr lats)
    with E comprehension_constituents [of e_lat way all_elements lats] have "lats = []" by simp
    with Inr assms show ?thesis
      by (simp add: process_element_def locate_def split: sum.splits)
  qed
next
  assume H: "typed_elements all_elements \<and> constituent_points all_elements way \<noteq> [] \<and>
          map e_lat (constituent_points all_elements way) = map Some ys \<and>
          map e_lon (constituent_points all_elements way) = map Some xs \<and>
          element_name way \<noteq> ''Sin nombre''"
  then obtain ns where ns: "e_nodes way = Some ns" using constituents_have_nodes by blast
  from H have ne: "ys \<noteq> []" "xs \<noteq> []" by auto
  from H comprehension_total [OF _ ns] have
    "comprehension e_lat way all_elements = Inr ys" "comprehension e_lon way all_elements = Inr xs"
    by blast+
  with assms ne have
    "locate ar all_elements bound way = Next (Some (float_mean ar ys, float_mean ar xs))"
    by (simp add: locate_def float_mean_def)
  with H show "\<exists>q. process_element ar category all_elements k bound way =
                    (Some q, Some (float_mean ar ys, float_mean ar xs)) \<and>
                  location q = (float_mean ar ys, float_mean ar xs) \<and>
                  name q = element_name way"
    by (simp add: process_element_def element_name_def Let_def)
qed

lemma locate_way:
  assumes "e_type way = Some ''way''"
    and "comprehension e_lat way all_elements = Inr lats" "comprehension e_lon way all_elements = Inr lons"
    and "lats \<noteq> []" "lons \<noteq> []"
  shows "locate ar all_elements bound way = Next (Some (float_mean ar lats, float_mean ar lons))"
  using assms by (simp add: locate_def float_mean_def)

lemma rating_at_0: "py_round 1 (uniform (7 / 2) 5 0) = 7 / 2"
  by (simp add: py_round_def uniform_def random_random_def round_half_even_def)

lemma example_locate:
  "locate binary64
     [example_way 10 [1, 2, 1] (Some [(''name'', ''Plaza'')]),
      example_node 1 0 0 None, example_node 2 2 4 None, example_node 3 9 9 None] None
     (example_way 10 [1, 2, 1] (Some [(''name'', ''Plaza'')])) = Next (Some (1, 2))"
  by (subst locate_way [of _ _ "[0, 2]" "[0, 4]"])
     (simp_all add: example_way_def example_node_def float_mean_0_2 float_mean_0_4)

lemma example_way_element:
  "process_element binary64 ''attraction''
     [example_way 10 [1, 2, 1] (Some [(''name'', ''Plaza'')]),
      example_node 1 0 0 None, example_node 2 2 4 None, example_node 3 9 9 None] 0 None
     (example_way 10 [1, 2, 1] (Some [(''name'', ''Plaza'')])) =
   (Some ((example_poi ''Plaza'' (1, 2) (7 / 2))\<lparr>ptype := ''attraction''\<rparr>), Some (1, 2))"
  unfolding process_element_def example_locate rating_at_0
  by (simp add: example_way_def dict_get_def example_poi_def)

lemma example_constituents:
  "constituent_points
     [example_way 10 [1, 2, 1] (Some [(''name'', ''Plaza'')]),
      example_node 1 0 0 None, example_node 2 2 4 None, example_node 3 9 9 None]
     (example_way 10 [1, 2, 1] (Some [(''name'', ''Plaza'')])) =
   [example_node 1 0 0 None, example_node 2 2 4 None]"
  by (simp add: constituent_points_def is_constituent_def example_way_def example_node_def)

theorem way_location_is_mean_of_constituent_points_witness:
  "e_type (example_way 10 [1, 2, 1] (Some [(''name'', ''Plaza'')])) = Some ''way'' \<and>
   process_element binary64 ''attraction''
     [example_way 10 [1, 2, 1] (Some [(''name'', ''Plaza'')]),
      example_node 1 0 0 None, example_node 2 2 4 None, example_node 3 9 9 None] 0 None
     (example_way 10 [1, 2, 1] (Some [(''name'', ''Plaza'')])) =
     (Some ((example_poi ''Plaza'' (1, 2) (7 / 2))\<lparr>ptype := ''attraction''\<rparr>), Some (1, 2)) \<and>
   location ((example_poi ''Plaza'' (1, 2) (7 / 2))\<lparr>ptype := ''attraction''\<rparr>) =
     (float_mean binary64 [0, 2], float_mean binary64 [0, 4]) \<and>
   (float_mean binary64 [0, 2], float_mean binary64 [0, 4]) =
     (arithmetic_mean [0, 2], arithmetic_mean [0, 4]) \<and>
   typed_elements
     [example_way 10 [1, 2, 1] (Some [(''name'', ''Plaza'')]),
      example_node 1 0 0 None, example_node 2 2 4 None, example_node 3 9 9 None] \<and>
   (\<exists>q. process_element binary64 ''hotel''
          [example_way 10 [1, 2, 1] (Some [(''name'', ''Plaza'')]),
           example_node 1 0 0 None, example_node 2 2 4 None, example_node 3 9 9 None] 7 (Some (5, 5))
          (example_way 10 [1, 2, 1] (Some [(''name'', ''Plaza'')])) =
          (Some q, Some (float_mean binary64 [0, 2], float_mean binary64 [0, 4])) \<and>
        location q = (float_mean binary64 [0, 2], float_mean binary64 [0, 4]) \<and>
        name q = ''Plaza'') \<and>
   constituent_points
     [example_way 10 [1, 2, 1] (Some [(''name'', ''Plaza'')]), example_node 3 9 9 None]
     (example_way 10 [1, 2, 1] (Some [(''name'', ''Plaza'')])) = [] \<and>
   process_element binary64 ''attraction''
     [example_way 10 [1, 2, 1] (Some [(''name'', ''Plaza'')]), example_node 3 9 9 None] 0 None
     (example_way 10 [1, 2, 1] (Some [(''name'', ''Plaza'')])) = (None, None)"
proof -
  let ?way = "example_way 10 [1, 2, 1] (Some [(''name'', ''Plaza'')])"
  let ?all = "[?way, example_node 1 0 0 None, example_node 2 2 4 None, example_node 3 9 9 None]"
  let ?p = "(example_poi ''Plaza'' (1, 2) (7 / 2))\<lparr>ptype := ''attraction''\<rparr>"
  have t: "e_type ?way = Some ''way''" by (simp add: example_way_def)
  have la: "map e_lat (constituent_points ?all ?way) = map Some [0, 2]"
    and lo: "map e_lon (constituent_points ?all ?way) = map Some [0, 4]"
    unfolding example_constituents by (simp_all add: example_node_def)
  have ty: "typed_elements ?all"
    by (simp add: typed_elements_def example_way_def example_node_def)
  have nm: "element_name ?way = ''Plaza''"
    by (simp add: element_name_def example_way_def dict_get_def)
  have ne: "constituent_points ?all ?way \<noteq> []" unfolding example_constituents by simp
  from way_location_is_mean_of_constituent_points [OF t, of binary64 "''attraction''" ?all 0 None ?p "Some (1, 2)"]
    example_way_element
  obtain lats lons where
    "map e_lat (constituent_points ?all ?way) = map Some lats"
    "map e_lon (constituent_points ?all ?way) = map Some lons"
    "location ?p = (float_mean binary64 lats, float_mean binary64 lons)"
    by blast
  with la lo have mean: "location ?p = (float_mean binary64 [0, 2], float_mean binary64 [0, 4])"
    by (simp add: map_eq_Cons_conv)
  from way_location_is_mean_of_constituent_points [OF t, of binary64 "''hotel''" ?all 7 "Some (5, 5)" _ _ "[0, 2]" "[0, 4]"]
    ty ne la lo nm
  have pos: "\<exists>q. process_element binary64 ''hotel'' ?all 7 (Some (5, 5)) ?way =
          (Some q, Some (float_mean binary64 [0, 2], float_mean binary64 [0, 4])) \<and>
        location q = (float_mean binary64 [0, 2], float_mean binary64 [0, 4]) \<and>
        name q = ''Plaza''"
    by simp
  have none: "constituent_points [?way, example_node 3 9 9 None] ?way = []"
    by (simp add: constituent_points_def is_constituent_def example_way_def example_node_def)
  with way_location_is_mean_of_constituent_points [OF t, of binary64 "''attraction''"
      "[?way, example_node 3 9 9 None]" 0 None]
  have "process_element binary64 ''attraction'' [?way, example_node 3 9 9 None] 0 None ?way = (None, None)"
    by blast
  moreover have "(float_mean binary64 [0, 2], float_mean binary64 [0, 4]) =
      (arithmetic_mean [0, 2], arithmetic_mean [0, 4])"
    by (simp add: float_mean_0_2 float_mean_0_4 arithmetic_mean_def)
  ultimately show ?thesis using t example_way_element mean ty pos none by blast
qed

lemma float_mean_0_0: "float_mean binary64 [0, 0] = 0"
  by (simp add: float_mean_pair double_round_0)

lemma example_locate_rounded:
  "locate binary64
     [example_way 10 [1, 2] (Some [(''name'', ''Plaza'')]),
      example_node 1 (double_round (1 / 10)) 0 None, example_node 2 (double_round (1 / 5)) 0 None] None
     (example_way 10 [1, 2] (Some [(''name'', ''Plaza'')])) =
   Next (Some (5404319552844596 / 2 ^ 55, 0))"
  by (subst locate_way [of _ _ "[double_round (1 / 10), double_round (1 / 5)]" "[0, 0]"])
     (simp_all add: example_way_def example_node_def float_mean_tenth_fifth float_mean_0_0)

text \<open>
  C7 as stated fails: the mean is the result of floating-point operations, which is not
  always the arithmetic mean. For a way through two points with the latitudes 0.1 and
  0.2 (the doubles nearest to them), binary64 arithmetic gives the latitude
  0.15000000000000002, which lies \<open>2^(-56)\<close> above the arithmetic mean of the two
  latitudes.
\<close>

theorem way_location_rounded_counterexample:
  "process_element binary64 ''attraction''
     [example_way 10 [1, 2] (Some [(''name'', ''Plaza'')]),
      example_node 1 (double_round (1 / 10)) 0 None, example_node 2 (double_round (1 / 5)) 0 None] 0 None
     (example_way 10 [1, 2] (Some [(''name'', ''Plaza'')])) =
     (Some ((example_poi ''Plaza'' (5404319552844596 / 2 ^ 55, 0) (7 / 2))\<lparr>ptype := ''attraction''\<rparr>),
      Some (5404319552844596 / 2 ^ 55, 0)) \<and>
   map e_lat (constituent_points
     [example_way 10 [1, 2] (Some [(''name'', ''Plaza'')]),
      example_node 1 (double_round (1 / 10)) 0 None, example_node 2 (double_round (1 / 5)) 0 None]
     (example_way 10 [1, 2] (Some [(''name'', ''Plaza'')]))) =
     [Some (double_round (1 / 10)), Some (double_round (1 / 5))] \<and>
   arithmetic_mean [double_round (1 / 10), double_round (1 / 5)] = 10808639105689191 / 2 ^ 56 \<and>
   fst (location ((example_poi ''Plaza'' (5404319552844596 / 2 ^ 55, 0) (7 / 2))\<lparr>ptype := ''attraction''\<rparr>)) \<noteq>
     arithmetic_mean [double_round (1 / 10), double_round (1 / 5)]"
proof -
  let ?way = "example_way 10 [1, 2] (Some [(''name'', ''Plaza'')])"
  let ?all = "[?way, example_node 1 (double_round (1 / 10)) 0 None, example_node 2 (double_round (1 / 5)) 0 None]"
  have pe: "process_element binary64 ''attraction'' ?all 0 None ?way =
     (Some ((example_poi ''Plaza'' (5404319552844596 / 2 ^ 55, 0) (7 / 2))\<lparr>ptype := ''attraction''\<rparr>),
      Some (5404319552844596 / 2 ^ 55, 0))"
    unfolding process_element_def example_locate_rounded rating_at_0
    by (simp add: example_way_def dict_get_def example_poi_def)
  have cp: "map e_lat (constituent_points ?all ?way) = [Some (double_round (1 / 10)), Some (double_round (1 / 5))]"
    by (simp add: constituent_points_def is_constituent_def example_way_def example_node_def)
  have am: "arithmetic_mean [double_round (1 / 10), double_round (1 / 5)] = 10808639105689191 / 2 ^ 56"
    by (simp add: arithmetic_mean_def double_tenth double_fifth)
  have "fst (location ((example_poi ''Plaza'' (5404319552844596 / 2 ^ 55, 0) (7 / 2))\<lparr>ptype := ''attraction''\<rparr>)) \<noteq>
     arithmetic_mean [double_round (1 / 10), double_round (1 / 5)]"
    unfolding am by (simp add: example_poi_def)
  with pe cp am show ?thesis by blast
qed

section \<open>Properties of cache entries that every call preserves\<close>

lemma set_popitems: "set (popitems m ls) \<subseteq> set ls"
  by (induction ls) auto

lemma entries_hold_getitem:
  assumes "entries_hold Q c" "getitem now k c = (r, c')"
  shows "entries_hold Q c' \<and> (\<forall>v. r = Inr v \<longrightarrow> Q k v)"
proof (cases "map_of (links c) k")
  case None
  with assms show ?thesis by (auto simp: getitem_def)
next
  case (Some ve)
  obtain v e where ve: "ve = (v, e)" by (cases ve)
  from Some ve have "(k, v, e) \<in> set (links c)" by (simp add: map_of_SomeD)
  with assms(1) have "Q k v" by (auto simp: entries_hold_def)
  with assms Some ve show ?thesis
    by (auto simp: getitem_def entries_hold_def move_to_end_def split: if_splits)
qed

lemma entries_hold_setitem:
  assumes "entries_hold Q c" "Q k v" "setitem now k v c = Inr c'"
  shows "entries_hold Q c'"
proof -
  have "set (popitems (maxsize c) (filter (unexpired now) (links c))) \<subseteq> set (links c)"
    using set_popitems [of "maxsize c" "filter (unexpired now) (links c)"] by auto
  with assms show ?thesis
    by (auto simp: setitem_def entries_hold_def move_to_end_def expire_def Let_def split: if_splits)
qed

lemma fetch_pois_body_entries_hold:
  assumes "entries_hold Qp (POI_CACHE w)"
    and "\<And>data. resp = Reply data \<Longrightarrow> c \<in> set queries \<Longrightarrow>
           Qp (''pois_'' @ c) (build_pois ar c (get_elements data) rng None [] (get_elements data))"
    and "fetch_pois_body ar now c resp rng w = (r, w')"
  shows "entries_hold Qp (POI_CACHE w') \<and> fetch_pois_cache w' = fetch_pois_cache w \<and>
         fetch_weather_cache w' = fetch_weather_cache w \<and> CACHE w' = CACHE w \<and>
         (\<forall>v. r = Inr v \<longrightarrow> v = [] \<or> (c \<in> set queries \<and> Qp (''pois_'' @ c) v))"
proof (cases "c \<in> set queries")
  case False
  with assms show ?thesis by (auto simp: fetch_pois_body_def)
next
  case valid: True
  show ?thesis
  proof (cases "cache_contains now (''pois_'' @ c) (POI_CACHE w)")
    case True
    obtain r0 c0 where g: "getitem now (''pois_'' @ c) (POI_CACHE w) = (r0, c0)" by force
    with assms(3) valid True have "r = r0" "w' = w\<lparr>POI_CACHE := c0\<rparr>"
      by (auto simp: fetch_pois_body_def Let_def)
    with entries_hold_getitem [OF assms(1) g] valid show ?thesis by auto
  next
    case False
    show ?thesis
    proof (cases resp)
      case RequestFailed
      with assms valid False show ?thesis by (auto simp: fetch_pois_body_def Let_def)
    next
      case (Reply data)
      let ?pois = "build_pois ar c (get_elements data) rng None [] (get_elements data)"
      let ?w1 = "w\<lparr>sent := sent w @ [Overpass]\<rparr>"
      have Q: "Qp (''pois_'' @ c) ?pois" using assms(2) Reply valid by simp
      show ?thesis
      proof (cases "setitem now (''pois_'' @ c) ?pois (POI_CACHE w)")
        case (Inl e)
        with assms valid False Reply show ?thesis by (auto simp: fetch_pois_body_def Let_def)
      next
        case (Inr c1)
        with assms(3) valid False Reply have "r = Inr ?pois" "w' = ?w1\<lparr>POI_CACHE := c1\<rparr>"
          by (auto simp: fetch_pois_body_def Let_def)
        with entries_hold_setitem [OF assms(1) Q Inr] Q valid show ?thesis by auto
      qed
    qed
  qed
qed

lemma fetch_pois_entries_hold:
  assumes "entries_hold Qp (POI_CACHE w)" "entries_hold Qm (fetch_pois_cache w)"
    and "Qm (key1 repr c) []"
    and "\<And>v. c \<in> set queries \<Longrightarrow> Qp (''pois_'' @ c) v \<Longrightarrow> Qm (key1 repr c) v"
    and "\<And>data. resp = Reply data \<Longrightarrow> c \<in> set queries \<Longrightarrow>
           Qp (''pois_'' @ c) (build_pois ar c (get_elements data) rng None [] (get_elements data))"
    and "fetch_pois repr ar now c resp rng w = (r, w')"
  shows "entries_hold Qp (POI_CACHE w') \<and> entries_hold Qm (fetch_pois_cache w') \<and>
         (\<forall>v. r = Inr v \<longrightarrow> Qm (key1 repr c) v)"
proof -
  obtain r0 c0 where g: "getitem now (key1 repr c) (fetch_pois_cache w) = (r0, c0)" by force
  note h0 = entries_hold_getitem [OF assms(2) g]
  show ?thesis
  proof (cases r0)
    case (Inr v)
    with assms(1,6) g h0 show ?thesis by (auto simp: fetch_pois_def wrapper_def)
  next
    case (Inl x)
    let ?w0 = "w\<lparr>fetch_pois_cache := c0\<rparr>"
    obtain r1 w1 where b: "fetch_pois_body ar now c resp rng ?w0 = (r1, w1)" by force
    have "entries_hold Qp (POI_CACHE ?w0)" using assms(1) by simp
    note h1 = fetch_pois_body_entries_hold [OF this assms(5) b]
    show ?thesis
    proof (cases r1)
      case e: (Inl e)
      with assms(6) g Inl b h0 h1 show ?thesis by (auto simp: fetch_pois_def wrapper_def)
    next
      case v: (Inr v)
      with h1 assms(3,4) have Qv: "Qm (key1 repr c) v" by auto
      show ?thesis
      proof (cases "setitem now (key1 repr c) v (fetch_pois_cache w1)")
        case e2: (Inl e2)
        with assms(6) g Inl b v h0 h1 show ?thesis by (auto simp: fetch_pois_def wrapper_def)
      next
        case s: (Inr c2)
        from h0 h1 have "entries_hold Qm (fetch_pois_cache w1)" by simp
        from entries_hold_setitem [OF this Qv s] assms(6) g Inl b v s h1 Qv show ?thesis
          by (auto simp: fetch_pois_def wrapper_def)
      qed
    qed
  qed
qed

section \<open>Cache tiers: what every cache operation and every call preserves\<close>

lemma popitems_drop: "\<exists>n. popitems m ls = drop n ls"
proof (induction ls)
  case Nil
  show ?case by simp
next
  case (Cons l ls)
  then obtain n where "popitems m ls = drop n ls" by blast
  then have "popitems m (l # ls) = drop (if m < length (l # ls) + 1 then Suc n else 0) (l # ls)"
    by simp
  then show ?case by blast
qed

lemma length_popitems: "1 \<le> m \<Longrightarrow> length (popitems m ls) < m"
  by (induction ls) auto

lemma popitems_room: "length ls < m \<Longrightarrow> popitems m ls = ls"
  by (cases ls) auto

lemma popitems_full: "length ls = m \<Longrightarrow> 1 \<le> m \<Longrightarrow> popitems m ls = tl ls"
  by (cases ls) (auto simp: popitems_room)

lemma distinct_popitems: "distinct (map fst ls) \<Longrightarrow> distinct (map fst (popitems m ls))"
proof -
  assume d: "distinct (map fst ls)"
  obtain n where "popitems m ls = drop n ls" using popitems_drop by blast
  with d show ?thesis by (simp add: drop_map [symmetric] del: drop_map)
qed

lemma distinct_move_to_end:
  "distinct (map fst ls) \<Longrightarrow> distinct (map fst (move_to_end k ve ls))"
  by (auto simp: move_to_end_def distinct_map_filter)

lemma length_move_to_end_present:
  "k \<in> fst ` set ls \<Longrightarrow> length (move_to_end k ve ls) \<le> length ls"
proof -
  assume "k \<in> fst ` set ls"
  then obtain l where "l \<in> set ls" "\<not> fst l \<noteq> k" by auto
  then have "length (filter (\<lambda>l. fst l \<noteq> k) ls) < length ls"
    by (rule length_filter_less)
  then show ?thesis by (simp add: move_to_end_def)
qed

lemma length_move_to_end: "length (move_to_end k ve ls) \<le> Suc (length ls)"
  by (simp add: move_to_end_def)

lemma tier_getitem:
  assumes "tier m t c" "getitem now k c = (r, c')"
  shows "tier m t c'"
proof (cases "map_of (links c) k")
  case None
  with assms show ?thesis by (simp add: getitem_def)
next
  case (Some ve)
  then have "k \<in> fst ` set (links c)" by (metis map_of_eq_None_iff option.distinct(1))
  from length_move_to_end_present [OF this, of ve] assms Some
  show ?thesis
    by (cases ve) (auto simp: getitem_def tier_def distinct_move_to_end)
qed

lemma tier_setitem:
  assumes "tier m t c" "1 \<le> m"
  shows "\<exists>c'. setitem now k v c = Inr c' \<and> tier m t c'"
proof -
  let ?ls = "filter (unexpired now) (links c)"
  let ?ls' = "if k \<in> fst ` set ?ls then ?ls else popitems m ?ls"
  from assms have d: "distinct (map fst ?ls)" and n: "length ?ls \<le> m"
    by (auto simp: tier_def distinct_map_filter intro: le_trans [OF length_filter_le])
  have "distinct (map fst (move_to_end k (v, now + t) ?ls'))"
    using d by (simp add: distinct_move_to_end distinct_popitems)
  moreover have "length (move_to_end k (v, now + t) ?ls') \<le> m"
  proof (cases "k \<in> fst ` set ?ls")
    case True
    from length_move_to_end_present [OF this, of "(v, now + t)"] n
    have "length (move_to_end k (v, now + t) ?ls) \<le> m" by (rule le_trans)
    with True show ?thesis by simp
  next
    case False
    from length_popitems [OF assms(2), of ?ls] length_move_to_end [of k "(v, now + t)" "popitems m ?ls"]
    show ?thesis using False by simp
  qed
  ultimately show ?thesis using assms
    by (auto simp: setitem_def tier_def expire_def Let_def split: if_splits)
qed


lemma tier_setitem_Inr:
  assumes "tier m t c" "1 \<le> m" "setitem now k v c = Inr c'"
  shows "tier m t c'"
  using tier_setitem [OF assms(1,2), of now k v] assms(3) by auto

lemma cache_contains_getitem:
  "cache_contains now k c \<Longrightarrow> \<exists>v c'. getitem now k c = (Inr v, c')"
  by (auto simp: cache_contains_def getitem_def split: option.splits)

lemma getitem_Inr_contains:
  "getitem now k c = (Inr v, c') \<Longrightarrow> cache_contains now k c"
  by (auto simp: cache_contains_def getitem_def split: option.splits if_splits)

lemma fetch_pois_cases [consumes 2, case_names hit invalid poi_hit failed fetched]:
  assumes "fetch_pois repr ar now c resp rng w = (r, w')" "tiers_ok w"
  obtains
    (hit) v m1 where
      "getitem now (key1 repr c) (fetch_pois_cache w) = (Inr v, m1)"
      "r = Inr v" "w' = w\<lparr>fetch_pois_cache := m1\<rparr>"
  | (invalid) x m1 m2 where
      "c \<notin> set queries"
      "getitem now (key1 repr c) (fetch_pois_cache w) = (Inl x, m1)"
      "setitem now (key1 repr c) [] m1 = Inr m2"
      "r = Inr []" "w' = w\<lparr>fetch_pois_cache := m2, warnings := warnings w @ [c]\<rparr>"
  | (poi_hit) x m1 v p1 m2 where
      "c \<in> set queries"
      "getitem now (key1 repr c) (fetch_pois_cache w) = (Inl x, m1)"
      "getitem now (''pois_'' @ c) (POI_CACHE w) = (Inr v, p1)"
      "setitem now (key1 repr c) v m1 = Inr m2"
      "r = Inr v" "w' = w\<lparr>POI_CACHE := p1, fetch_pois_cache := m2\<rparr>"
  | (failed) x m1 m2 where
      "c \<in> set queries"
      "getitem now (key1 repr c) (fetch_pois_cache w) = (Inl x, m1)"
      "\<not> cache_contains now (''pois_'' @ c) (POI_CACHE w)"
      "resp = RequestFailed"
      "setitem now (key1 repr c) [] m1 = Inr m2"
      "r = Inr []" "w' = w\<lparr>fetch_pois_cache := m2, sent := sent w @ [Overpass]\<rparr>"
  | (fetched) x m1 data p1 m2 where
      "c \<in> set queries"
      "getitem now (key1 repr c) (fetch_pois_cache w) = (Inl x, m1)"
      "\<not> cache_contains now (''pois_'' @ c) (POI_CACHE w)"
      "resp = Reply data"
      "setitem now (''pois_'' @ c) (build_pois ar c (get_elements data) rng None [] (get_elements data))
         (POI_CACHE w) = Inr p1"
      "setitem now (key1 repr c) (build_pois ar c (get_elements data) rng None [] (get_elements data)) m1
         = Inr m2"
      "r = Inr (build_pois ar c (get_elements data) rng None [] (get_elements data))"
      "w' = w\<lparr>POI_CACHE := p1, fetch_pois_cache := m2, sent := sent w @ [Overpass]\<rparr>"
proof -
  obtain r0 m1 where g: "getitem now (key1 repr c) (fetch_pois_cache w) = (r0, m1)" by force
  from assms(2) have tm: "tier 100 3600 (fetch_pois_cache w)" and tp: "tier 100 86400 (POI_CACHE w)"
    by (simp_all add: tiers_ok_def)
  from tier_getitem [OF tm g] have tm1: "tier 100 3600 m1" .
  have store: "\<And>v. \<exists>m2. setitem now (key1 repr c) v m1 = Inr m2"
    using tier_setitem [OF tm1] by fastforce
  show thesis
  proof (cases r0)
    case (Inr v)
    with assms(1) g have "r = Inr v" "w' = w\<lparr>fetch_pois_cache := m1\<rparr>"
      by (auto simp: fetch_pois_def wrapper_def)
    with g Inr show thesis by (auto intro: hit)
  next
    case (Inl x)
    show thesis
    proof (cases "c \<in> set queries")
      case False
      obtain m2 where s: "setitem now (key1 repr c) [] m1 = Inr m2" using store by blast
      with assms(1) g Inl False
      have "r = Inr []" "w' = w\<lparr>fetch_pois_cache := m2, warnings := warnings w @ [c]\<rparr>"
        by (auto simp: fetch_pois_def wrapper_def fetch_pois_body_def)
      with g Inl False s show thesis by (auto intro: invalid)
    next
      case valid: True
      show thesis
      proof (cases "cache_contains now (''pois_'' @ c) (POI_CACHE w)")
        case True
        from cache_contains_getitem [OF True]
        obtain v p1 where gp: "getitem now (''pois_'' @ c) (POI_CACHE w) = (Inr v, p1)"
          by blast
        obtain m2 where s: "setitem now (key1 repr c) v m1 = Inr m2" using store by blast
        with assms(1) g Inl valid True gp
        have "r = Inr v" "w' = w\<lparr>POI_CACHE := p1, fetch_pois_cache := m2\<rparr>"
          by (auto simp: fetch_pois_def wrapper_def fetch_pois_body_def Let_def)
        with g Inl valid gp s show thesis by (auto intro: poi_hit)
      next
        case False
        show thesis
        proof (cases resp)
          case RequestFailed
          obtain m2 where s: "setitem now (key1 repr c) [] m1 = Inr m2" using store by blast
          with assms(1) g Inl valid False RequestFailed
          have "r = Inr []" "w' = w\<lparr>fetch_pois_cache := m2, sent := sent w @ [Overpass]\<rparr>"
            by (auto simp: fetch_pois_def wrapper_def fetch_pois_body_def Let_def)
          with g Inl valid False RequestFailed s show thesis by (auto intro: failed)
        next
          case (Reply data)
          let ?pois = "build_pois ar c (get_elements data) rng None [] (get_elements data)"
          obtain p1 where sp: "setitem now (''pois_'' @ c) ?pois (POI_CACHE w) = Inr p1"
            using tier_setitem [OF tp] by fastforce
          obtain m2 where s: "setitem now (key1 repr c) ?pois m1 = Inr m2" using store by blast
          with assms(1) g Inl valid False Reply sp
          have "r = Inr ?pois"
            "w' = w\<lparr>POI_CACHE := p1, fetch_pois_cache := m2, sent := sent w @ [Overpass]\<rparr>"
            by (auto simp: fetch_pois_def wrapper_def fetch_pois_body_def Let_def)
          with g Inl valid False Reply sp s show thesis by (auto intro: fetched)
        qed
      qed
    qed
  qed
qed

lemma tiers_ok_fetch_pois:
  assumes "fetch_pois repr ar now c resp rng w = (r, w')" "tiers_ok w"
  shows "tiers_ok w'"
  using assms
proof (cases rule: fetch_pois_cases)
  case (hit v m1)
  with assms(2) tier_getitem show ?thesis by (auto simp: tiers_ok_def)
next
  case (invalid x m1 m2)
  from assms(2) have "tier 100 3600 m1" using tier_getitem invalid(2) by (auto simp: tiers_ok_def)
  from tier_setitem_Inr [OF this _ invalid(3)] assms(2) invalid show ?thesis by (simp add: tiers_ok_def)
next
  case (poi_hit x m1 v p1 m2)
  from assms(2) have "tier 100 3600 m1" using tier_getitem poi_hit(2) by (auto simp: tiers_ok_def)
  from tier_setitem_Inr [OF this _ poi_hit(4)] have "tier 100 3600 m2" by simp
  moreover from assms(2) have "tier 100 86400 p1" using tier_getitem poi_hit(3) by (auto simp: tiers_ok_def)
  ultimately show ?thesis using assms(2) poi_hit by (simp add: tiers_ok_def)
next
  case (failed x m1 m2)
  from assms(2) have "tier 100 3600 m1" using tier_getitem failed(2) by (auto simp: tiers_ok_def)
  from tier_setitem_Inr [OF this _ failed(5)] assms(2) failed show ?thesis by (simp add: tiers_ok_def)
next
  case (fetched x m1 data p1 m2)
  from assms(2) have "tier 100 3600 m1" using tier_getitem fetched(2) by (auto simp: tiers_ok_def)
  from tier_setitem_Inr [OF this _ fetched(6)] have "tier 100 3600 m2" by simp
  moreover from assms(2) have "tier 100 86400 (POI_CACHE w)" by (simp add: tiers_ok_def)
  from tier_setitem_Inr [OF this _ fetched(5)] have "tier 100 86400 p1" by simp
  ultimately show ?thesis using assms(2) fetched by (simp add: tiers_ok_def)
qed


lemma fetch_weather_cases [consumes 2, case_names hit no_key failed malformed fetched]:
  assumes "fetch_weather repr cap api_key now lat lon resp w = (r, w')" "tiers_ok w"
  obtains
    (hit) v m1 where
      "getitem now (key2 repr lat lon) (fetch_weather_cache w) = (Inr v, m1)"
      "r = Inr v" "w' = w\<lparr>fetch_weather_cache := m1\<rparr>"
  | (no_key) x m1 m2 where
      "api_key = None \<or> api_key = Some []"
      "getitem now (key2 repr lat lon) (fetch_weather_cache w) = (Inl x, m1)"
      "setitem now (key2 repr lat lon) None m1 = Inr m2"
      "r = Inr None" "w' = w\<lparr>fetch_weather_cache := m2\<rparr>"
  | (failed) x m1 m2 where
      "getitem now (key2 repr lat lon) (fetch_weather_cache w) = (Inl x, m1)"
      "resp = RequestFailed"
      "setitem now (key2 repr lat lon) None m1 = Inr m2"
      "r = Inr None" "w' = w\<lparr>fetch_weather_cache := m2, sent := sent w @ [OpenWeatherMap]\<rparr>"
  | (malformed) x m1 data e where
      "getitem now (key2 repr lat lon) (fetch_weather_cache w) = (Inl x, m1)"
      "resp = Reply data" "snapshot cap data = Inl e"
      "r = Inl e" "w' = w\<lparr>fetch_weather_cache := m1, sent := sent w @ [OpenWeatherMap]\<rparr>"
  | (fetched) x m1 data s m2 where
      "getitem now (key2 repr lat lon) (fetch_weather_cache w) = (Inl x, m1)"
      "resp = Reply data" "snapshot cap data = Inr s"
      "setitem now (key2 repr lat lon) (Some s) m1 = Inr m2"
      "r = Inr (Some s)" "w' = w\<lparr>fetch_weather_cache := m2, sent := sent w @ [OpenWeatherMap]\<rparr>"
proof -
  obtain r0 m1 where g: "getitem now (key2 repr lat lon) (fetch_weather_cache w) = (r0, m1)" by force
  from assms(2) have tm: "tier 100 300 (fetch_weather_cache w)" by (simp add: tiers_ok_def)
  from tier_getitem [OF tm g] have tm1: "tier 100 300 m1" .
  have store: "\<And>v. \<exists>m2. setitem now (key2 repr lat lon) v m1 = Inr m2"
    using tier_setitem [OF tm1] by fastforce
  show thesis
  proof (cases r0)
    case (Inr v)
    with assms(1) g have "r = Inr v" "w' = w\<lparr>fetch_weather_cache := m1\<rparr>"
      by (auto simp: fetch_weather_def wrapper_def)
    with g Inr show thesis by (auto intro: hit)
  next
    case (Inl x)
    show thesis
    proof (cases "api_key = None \<or> api_key = Some []")
      case True
      obtain m2 where s: "setitem now (key2 repr lat lon) None m1 = Inr m2" using store by blast
      with assms(1) g Inl True have "r = Inr None" "w' = w\<lparr>fetch_weather_cache := m2\<rparr>"
        by (auto simp: fetch_weather_def wrapper_def fetch_weather_body_def)
      with g Inl True s show thesis by (auto intro: no_key)
    next
      case False
      show thesis
      proof (cases resp)
        case RequestFailed
        obtain m2 where s: "setitem now (key2 repr lat lon) None m1 = Inr m2" using store by blast
        with assms(1) g Inl False RequestFailed
        have "r = Inr None" "w' = w\<lparr>fetch_weather_cache := m2, sent := sent w @ [OpenWeatherMap]\<rparr>"
          by (auto simp: fetch_weather_def wrapper_def fetch_weather_body_def Let_def)
        with g Inl RequestFailed s show thesis by (auto intro: failed)
      next
        case (Reply data)
        show thesis
        proof (cases "snapshot cap data")
          case e: (Inl e)
          with assms(1) g Inl False Reply
          have "r = Inl e" "w' = w\<lparr>fetch_weather_cache := m1, sent := sent w @ [OpenWeatherMap]\<rparr>"
            by (auto simp: fetch_weather_def wrapper_def fetch_weather_body_def Let_def)
          with g Inl Reply e show thesis by (auto intro: malformed)
        next
          case sn: (Inr sn)
          obtain m2 where s: "setitem now (key2 repr lat lon) (Some sn) m1 = Inr m2" using store by blast
          with assms(1) g Inl False Reply sn
          have "r = Inr (Some sn)" "w' = w\<lparr>fetch_weather_cache := m2, sent := sent w @ [OpenWeatherMap]\<rparr>"
            by (auto simp: fetch_weather_def wrapper_def fetch_weather_body_def Let_def)
          with g Inl Reply sn s show thesis by (auto intro: fetched)
        qed
      qed
    qed
  qed
qed

lemma fetch_weather_frame:
  assumes "fetch_weather repr cap api_key now lat lon resp w = (r, w')" "tiers_ok w"
  shows "tiers_ok w' \<and> POI_CACHE w' = POI_CACHE w \<and> fetch_pois_cache w' = fetch_pois_cache w"
  using assms
proof (cases rule: fetch_weather_cases)
  case (hit v m1)
  with assms(2) tier_getitem show ?thesis by (auto simp: tiers_ok_def)
next
  case (no_key x m1 m2)
  from assms(2) have "tier 100 300 m1" using tier_getitem no_key(2) by (auto simp: tiers_ok_def)
  from tier_setitem_Inr [OF this _ no_key(3)] assms(2) no_key show ?thesis by (simp add: tiers_ok_def)
next
  case (failed x m1 m2)
  from assms(2) have "tier 100 300 m1" using tier_getitem failed(1) by (auto simp: tiers_ok_def)
  from tier_setitem_Inr [OF this _ failed(3)] assms(2) failed show ?thesis by (simp add: tiers_ok_def)
next
  case (malformed x m1 data e)
  with assms(2) tier_getitem show ?thesis by (auto simp: tiers_ok_def)
next
  case (fetched x m1 data s m2)
  from assms(2) have "tier 100 300 m1" using tier_getitem fetched(1) by (auto simp: tiers_ok_def)
  from tier_setitem_Inr [OF this _ fetched(4)] assms(2) fetched show ?thesis by (simp add: tiers_ok_def)
qed

lemma get_directions_frame:
  "snd (get_directions float args resp w) = w \<or>
   snd (get_directions float args resp w) = w\<lparr>sent := sent w @ [OSRM]\<rparr>"
  by (auto simp: get_directions_def get_directions_body_def error_handler_def Let_def subscript_def
      split: response.splits option.splits list.splits exn.splits sum.splits)

lemma step_frame:
  assumes "tiers_ok w"
  shows "tiers_ok (step E call w) \<and>
         ((\<exists>now c resp rng. call = Fetch_pois now c resp rng) \<or>
          (POI_CACHE (step E call w) = POI_CACHE w \<and> fetch_pois_cache (step E call w) = fetch_pois_cache w))"
proof (cases call)
  case (Fetch_pois now c resp rng)
  then show ?thesis
    using tiers_ok_fetch_pois [OF _ assms, of "env_repr_str E" "env_arith E" now c resp rng] by (simp add: prod_eq_iff)
next
  case (Fetch_weather now lat lon resp)
  then show ?thesis
    using fetch_weather_frame [OF _ assms, of "env_repr_float E" "env_capitalize E" "env_api_key E" now lat lon resp]
    by (simp add: prod_eq_iff)
next
  case (Get_directions args resp)
  with get_directions_frame [of "env_float E" args resp w] assms show ?thesis
    by (auto simp: tiers_ok_def)
qed

lemma run_snoc: "run E (calls @ [call]) = step E call (run E calls)"
  by (simp add: run_def)

lemma tiers_ok_initial: "tiers_ok initial_world"
  by (simp add: tiers_ok_def tier_def initial_world_def TTLCache_def)

lemma tiers_ok_run: "tiers_ok (run E calls)"
proof (induction calls rule: rev_induct)
  case Nil
  show ?case by (simp add: run_def tiers_ok_initial)
next
  case (snoc call calls)
  then show ?case using step_frame by (simp add: run_snoc)
qed

lemma entries_hold_run:
  assumes "\<And>c. Qm (key1 (env_repr_str E) c) []"
    and "\<And>c v. c \<in> set queries \<Longrightarrow> Qp (''pois_'' @ c) v \<Longrightarrow> Qm (key1 (env_repr_str E) c) v"
    and "\<And>now c data rng. Fetch_pois now c (Reply data) rng \<in> set calls \<Longrightarrow> c \<in> set queries \<Longrightarrow>
           Qp (''pois_'' @ c) (build_pois (env_arith E) c (get_elements data) rng None [] (get_elements data))"
  shows "entries_hold Qp (POI_CACHE (run E calls)) \<and> entries_hold Qm (fetch_pois_cache (run E calls))"
  using assms(3)
proof (induction calls rule: rev_induct)
  case Nil
  show ?case by (simp add: run_def initial_world_def TTLCache_def entries_hold_def)
next
  case (snoc call calls)
  have "entries_hold Qp (POI_CACHE (run E calls)) \<and> entries_hold Qm (fetch_pois_cache (run E calls))"
  proof (rule snoc.IH)
    fix now c data rng
    assume "Fetch_pois now c (Reply data) rng \<in> set calls" "c \<in> set queries"
    then show "Qp (''pois_'' @ c) (build_pois (env_arith E) c (get_elements data) rng None [] (get_elements data))"
      by (intro snoc.prems [of now c data rng]) simp_all
  qed
  then have IH: "entries_hold Qp (POI_CACHE (run E calls))" "entries_hold Qm (fetch_pois_cache (run E calls))"
    by simp_all
  show ?case
  proof (cases "\<exists>now c resp rng. call = Fetch_pois now c resp rng")
    case False
    with step_frame [OF tiers_ok_run [of E calls], of E call] IH show ?thesis by (simp add: run_snoc)
  next
    case True
    then obtain now c resp rng where call: "call = Fetch_pois now c resp rng" by blast
    obtain r w' where f: "fetch_pois (env_repr_str E) (env_arith E) now c resp rng (run E calls) = (r, w')" by force
    have "\<And>data. resp = Reply data \<Longrightarrow> c \<in> set queries \<Longrightarrow>
           Qp (''pois_'' @ c) (build_pois (env_arith E) c (get_elements data) rng None [] (get_elements data))"
      by (rule snoc.prems [of now c _ rng]) (simp_all add: call)
    from fetch_pois_entries_hold [OF IH assms(1) assms(2) this f] call f show ?thesis
      by (simp add: run_snoc)
  qed
qed

section \<open>The records that the loop of the POI fetcher builds\<close>

lemma process_element_Some:
  assumes "process_element ar c all_elements k b e = (Some p, b')"
  shows "name p = element_name e \<and> name p \<noteq> ''Sin nombre'' \<and>
         rating p = py_round 1 (uniform (7 / 2) 5 k)"
  using assms
  by (auto simp: process_element_def element_name_def Let_def
      split: flow.splits if_splits option.splits)

lemma build_pois_all:
  assumes "\<And>k b e p b'. process_element ar c all_elements k b e = (Some p, b') \<Longrightarrow> P p"
  shows "(\<forall>p \<in> set acc. P p) \<Longrightarrow> \<forall>p \<in> set (build_pois ar c all_elements rng b acc es). P p"
proof (induction es arbitrary: b acc)
  case Nil
  then show ?case by simp
next
  case (Cons e es)
  obtain r b' where pe: "process_element ar c all_elements (rng (length acc)) b e = (r, b')" by force
  show ?case
  proof (cases r)
    case None
    with pe Cons show ?thesis by simp
  next
    case (Some p)
    with pe assms have "P p" by blast
    with Cons.prems have "\<forall>q \<in> set (acc @ [p]). P q" by auto
    from Cons.IH [OF this] pe Some show ?thesis by simp
  qed
qed

lemma length_outcomes: "length (outcomes ar c all_elements rng b n es) = length es"
  by (induction es arbitrary: b n) (auto split: prod.splits option.splits)

lemma build_pois_outcomes:
  "build_pois ar c all_elements rng b acc es =
     acc @ List.map_filter id (outcomes ar c all_elements rng b (length acc) es)"
proof (induction es arbitrary: b acc)
  case Nil
  show ?case by (simp add: List.map_filter_simps)
next
  case (Cons e es)
  obtain r b' where pe: "process_element ar c all_elements (rng (length acc)) b e = (r, b')" by force
  show ?case
  proof (cases r)
    case None
    with pe Cons [of b' acc] show ?thesis by (simp add: List.map_filter_simps)
  next
    case (Some p)
    with pe Cons [of b' "acc @ [p]"] show ?thesis by (simp add: List.map_filter_simps)
  qed
qed

lemma outcomes_nth:
  "i < length es \<Longrightarrow> outcomes ar c all_elements rng b n es ! i = Some p \<Longrightarrow>
   \<exists>k b'. fst (process_element ar c all_elements k b' (es ! i)) = Some p"
proof (induction es arbitrary: b n i)
  case Nil
  then show ?case by simp
next
  case (Cons e es)
  obtain r b' where pe: "process_element ar c all_elements (rng n) b e = (r, b')" by force
  show ?case
  proof (cases i)
    case 0
    with Cons.prems pe have "r = Some p" by (cases r) simp_all
    with pe 0 have "fst (process_element ar c all_elements (rng n) b ((e # es) ! i)) = Some p" by simp
    then show ?thesis by blast
  next
    case (Suc j)
    with Cons.prems pe have "j < length es"
      "outcomes ar c all_elements rng b' (case r of None \<Rightarrow> n | Some _ \<Rightarrow> Suc n) es ! j = Some p"
      by (cases r; simp)+
    from Cons.IH [OF this] Suc show ?thesis by simp
  qed
qed

lemma set_map_filter_id: "set (List.map_filter id os) = {p. Some p \<in> set os}"
  by (induction os) (auto simp: List.map_filter_simps split: option.splits)

lemma map_filter_id_append:
  "List.map_filter id (xs @ ys) = List.map_filter id xs @ List.map_filter id ys"
  by (simp add: List.map_filter_def)

lemma map_filter_duplicate:
  assumes "i < j" "j < length os" "os ! i = Some p" "os ! j = Some p"
  shows "\<not> distinct (List.map_filter id os)"
proof -
  from assms have i: "i < length os" by simp
  have os: "os = take i os @ Some p # drop (Suc i) os"
    using id_take_nth_drop [OF i] assms(3) by simp
  from assms have "drop (Suc i) os ! (j - Suc i) = Some p" "j - Suc i < length (drop (Suc i) os)"
    by simp_all
  then have "Some p \<in> set (drop (Suc i) os)" by (metis nth_mem)
  then have "p \<in> set (List.map_filter id (drop (Suc i) os))" by (simp add: set_map_filter_id)
  moreover have "List.map_filter id os =
      List.map_filter id (take i os) @ p # List.map_filter id (drop (Suc i) os)"
    by (subst os) (simp add: map_filter_id_append List.map_filter_simps)
  ultimately show ?thesis by simp
qed

lemma round_half_even_bounds:
  "of_int a \<le> x \<Longrightarrow> x \<le> of_int b \<Longrightarrow> a \<le> round_half_even x \<and> round_half_even x \<le> b"
proof -
  assume A: "of_int a \<le> x" and B: "x \<le> of_int b"
  have fa: "a \<le> \<lfloor>x\<rfloor>" using A by (simp add: le_floor_iff)
  have fb: "\<lfloor>x\<rfloor> \<le> b" using B by (simp add: floor_le_iff)
  show ?thesis
  proof (cases "\<lfloor>x\<rfloor> = b")
    case True
    with B have "x - of_int \<lfloor>x\<rfloor> \<le> 0" by simp
    then have "x - of_int \<lfloor>x\<rfloor> < 1 / 2" by linarith
    with fa fb show ?thesis by (simp add: round_half_even_def Let_def)
  next
    case False
    with fb have "\<lfloor>x\<rfloor> + 1 \<le> b" by simp
    with fa fb show ?thesis by (auto simp: round_half_even_def Let_def)
  qed
qed

lemma random_random_range: "0 \<le> random_random k \<and> random_random k < 1"
proof -
  have "0 \<le> k mod 2 ^ 53" "k mod 2 ^ 53 < 2 ^ 53" by simp_all
  then have "(0::rat) \<le> of_int (k mod 2 ^ 53)" "(of_int (k mod 2 ^ 53) :: rat) < of_int (2 ^ 53)"
    by (simp_all only: of_int_0_le_iff of_int_less_iff)
  then show ?thesis by (simp add: random_random_def)
qed

lemma rating_range:
  "7 / 2 \<le> py_round 1 (uniform (7 / 2) 5 k) \<and> py_round 1 (uniform (7 / 2) 5 k) \<le> 5"
proof -
  let ?u = "uniform (7 / 2) 5 k"
  from random_random_range [of k] have "7 / 2 \<le> ?u" "?u \<le> 5"
    by (simp_all add: uniform_def)
  then have "of_int 35 \<le> ?u * 10 ^ 1" "?u * 10 ^ 1 \<le> of_int 50" by simp_all
  from round_half_even_bounds [OF this]
  have "35 \<le> round_half_even (?u * 10 ^ 1)" "round_half_even (?u * 10 ^ 1) \<le> 50" by simp_all
  then have "(of_int 35 :: rat) \<le> of_int (round_half_even (?u * 10 ^ 1))"
    "(of_int (round_half_even (?u * 10 ^ 1)) :: rat) \<le> of_int 50"
    by (simp_all only: of_int_le_iff)
  then show ?thesis by (simp add: py_round_def)
qed

section \<open>Names, ratings and duplicates in the lists that \<^verbatim>\<open>fetch_pois\<close> returns\<close>

lemma process_element_ok:
  assumes a: "process_element ar c es k b e = (Some p, b')"
  shows "name p \<noteq> ''Sin nombre'' \<and> 7 / 2 \<le> rating p \<and> rating p \<le> 5"
proof -
  from process_element_Some [OF a]
  have n: "name p \<noteq> ''Sin nombre''" and r: "rating p = py_round 1 (uniform (7 / 2) 5 k)"
    by blast+
  from rating_range [of k] have "7 / 2 \<le> rating p \<and> rating p \<le> 5" unfolding r .
  with n show ?thesis by blast
qed

lemma build_pois_ok:
  "\<forall>p \<in> set (build_pois ar c es r None [] es'). name p \<noteq> ''Sin nombre'' \<and> 7 / 2 \<le> rating p \<and> rating p \<le> 5"
proof (rule build_pois_all)
  fix k b e p b'
  assume "process_element ar c es k b e = (Some p, b')"
  then show "name p \<noteq> ''Sin nombre'' \<and> 7 / 2 \<le> rating p \<and> rating p \<le> 5"
    by (rule process_element_ok)
next
  show "\<forall>p\<in>set []. name p \<noteq> ''Sin nombre'' \<and> 7 / 2 \<le> rating p \<and> rating p \<le> 5" by simp
qed


lemma key1_inj: "inj repr \<Longrightarrow> key1 repr a = key1 repr b \<Longrightarrow> a = b"
  by (simp add: key1_def inj_eq)

lemma inj_example_repr: "inj example_repr"
  by (rule injI) (simp add: example_repr_def)

lemmas fetch_eval =
  fetch_pois_def wrapper_def getitem_def initial_world_def TTLCache_def fetch_pois_body_def
  queries_def cache_contains_def setitem_def expire_def move_to_end_def get_elements_def
  process_element_def locate_def example_node_def dict_get_def py_round_def uniform_def random_random_def round_half_even_def example_poi_def
  Let_def key1_def example_repr_def unexpired_def

lemma example_fetch_unnamed:
  "fst (fetch_pois example_repr binary64 0 ''hotel''
          (Reply \<lparr>elements = Some [example_node 1 0 0 (Some [(''name'', [])])]\<rparr>) (\<lambda>n. 0)
          initial_world) = Inr [example_poi [] (0, 0) (7 / 2)]"
  by (simp add: fetch_eval)

lemma example_fetch_twice:
  "fst (fetch_pois example_repr binary64 0 ''hotel''
          (Reply \<lparr>elements = Some [example_node 1 0 0 (Some [(''name'', ''Sol'')]),
                                     example_node 2 0 0 (Some [(''name'', ''Sol'')])]\<rparr>) (\<lambda>n. 0)
          initial_world) =
   Inr [example_poi ''Sol'' (0, 0) (7 / 2), example_poi ''Sol'' (0, 0) (7 / 2)]"
  by (simp add: fetch_eval)

text \<open>
  In every state that a run of the module reaches, every POI of a list that
  \<^verbatim>\<open>fetch_pois\<close> returns, be it freshly built or taken from a cache, has a name other
  than the placeholder \<^verbatim>\<open>'Sin nombre'\<close> and a rating between 3.5 and 5.0.
\<close>

lemma fetch_pois_placeholder_and_ratings:
  assumes "fetch_pois (env_repr_str E) (env_arith E) now category resp rng (run E calls) = (Inr pois, w')"
  shows "\<forall>p \<in> set pois. name p \<noteq> ''Sin nombre'' \<and> 7 / 2 \<le> rating p \<and> rating p \<le> 5"
proof -
  define Q :: "string \<Rightarrow> poi list \<Rightarrow> bool"
    where "Q = (\<lambda>k v. \<forall>p \<in> set v. name p \<noteq> ''Sin nombre'' \<and> 7 / 2 \<le> rating p \<and> rating p \<le> 5)"
  have built: "Q k (build_pois (env_arith E) c es r None [] es)" for k c es r
    unfolding Q_def by (rule build_pois_ok)
  have empty: "Q k []" for k by (simp add: Q_def)
  have "entries_hold Q (POI_CACHE (run E calls)) \<and> entries_hold Q (fetch_pois_cache (run E calls))"
  proof (rule entries_hold_run)
    show "Q (key1 (env_repr_str E) c) []" for c by (rule empty)
    show "Q (key1 (env_repr_str E) c) v" if "Q (''pois_'' @ c) v" for c v
      using that by (simp add: Q_def)
    show "Q (''pois_'' @ c) (build_pois (env_arith E) c (get_elements data) r None [] (get_elements data))" for c data r
      by (rule built)
  qed
  then have h: "entries_hold Q (POI_CACHE (run E calls))" "entries_hold Q (fetch_pois_cache (run E calls))"
    by blast+
  have "Q (key1 (env_repr_str E) category) v" if "Q (''pois_'' @ category) v" for v
    using that by (simp add: Q_def)
  from fetch_pois_entries_hold [of Q "run E calls" Q, OF h empty this built assms]
  have "Q (key1 (env_repr_str E) category) pois" by blast
  then show ?thesis by (simp only: Q_def)
qed

text \<open>
  C1: the loop is meant to skip the places without a name (the comment at its test
  reads \<^verbatim>\<open>Saltamos lugares sin nombre\<close>), but the test compares the name with the
  placeholder \<^verbatim>\<open>'Sin nombre'\<close> only. A node element whose \<^verbatim>\<open>name\<close> tag is the empty
  string passes it, and \<^verbatim>\<open>fetch_pois\<close> returns a POI with an empty name: on this
  reply, for the valid category \<^verbatim>\<open>hotel\<close>, the list returned has an entry whose name
  is empty.
\<close>

theorem fetch_pois_returns_empty_name:
  "fst (fetch_pois example_repr binary64 0 ''hotel''
          (Reply \<lparr>elements = Some [example_node 1 0 0 (Some [(''name'', [])])]\<rparr>) (\<lambda>n. 0)
          initial_world) = Inr [example_poi [] (0, 0) (7 / 2)] \<and>
   name (example_poi [] (0, 0) (7 / 2)) = []"
  using example_fetch_unnamed by (simp add: example_poi_def)

text \<open>
  C2, as amended: \<^verbatim>\<open>fetch_pois\<close> does not deduplicate. In every state that a run
  reaches, the list it returns is empty or it is the list built from one reply of the
  provider for that category, received in this call or in an earlier one: the loop body
  is applied to each raw element in the order of the reply, there is one outcome per
  element, and the list holds every record that the body yields, in that order. So
  whenever two elements of the reply yield the same record, the list has a duplicate.
  (\<^verbatim>\<open>repr\<close> is injective on strings, so the decorator's keys tell the categories
  apart.)
\<close>

theorem fetch_pois_keeps_every_record:
  assumes "inj (env_repr_str E)"
    and "fetch_pois (env_repr_str E) (env_arith E) now category resp rng (run E calls) = (Inr pois, w')"
  shows "pois = [] \<or>
         (\<exists>t data r.
            Fetch_pois t category (Reply data) r \<in> set (calls @ [Fetch_pois now category resp rng]) \<and>
            pois = List.map_filter id (reply_outcomes (env_arith E) category r data) \<and>
            length (reply_outcomes (env_arith E) category r data) = length (get_elements data) \<and>
            (\<forall>i p. i < length (get_elements data) \<and>
                   reply_outcomes (env_arith E) category r data ! i = Some p \<longrightarrow>
                   (\<exists>k b. fst (process_element (env_arith E) category (get_elements data) k b
                                 (get_elements data ! i)) = Some p)) \<and>
            (\<forall>i j p. i < j \<and> j < length (get_elements data) \<and>
                     reply_outcomes (env_arith E) category r data ! i = Some p \<and>
                     reply_outcomes (env_arith E) category r data ! j = Some p \<longrightarrow>
                     \<not> distinct pois))"
proof -
  let ?S = "set (calls @ [Fetch_pois now category resp rng])"
  define G :: "string \<Rightarrow> poi list \<Rightarrow> bool" where
    "G = (\<lambda>c v. v = [] \<or>
           (\<exists>t data r. Fetch_pois t c (Reply data) r \<in> ?S \<and>
              v = List.map_filter id (reply_outcomes (env_arith E) c r data)))"
  define Qp :: "string \<Rightarrow> poi list \<Rightarrow> bool" where "Qp = (\<lambda>k v. \<forall>c. k = ''pois_'' @ c \<longrightarrow> G c v)"
  define Qm :: "string \<Rightarrow> poi list \<Rightarrow> bool"
    where "Qm = (\<lambda>k v. \<forall>c. k = key1 (env_repr_str E) c \<longrightarrow> G c v)"
  have built: "G c (build_pois (env_arith E) c (get_elements data) r None [] (get_elements data))"
    if "Fetch_pois t c (Reply data) r \<in> ?S" for t c data r
    unfolding G_def using that build_pois_outcomes [of "env_arith E" c "get_elements data" r None "[]" "get_elements data"]
    by (auto simp: reply_outcomes_def)
  have empty: "Qm (key1 (env_repr_str E) c) []" for c by (simp add: Qm_def G_def)
  have up: "Qm (key1 (env_repr_str E) c) v" if "Qp (''pois_'' @ c) v" for c v
    unfolding Qm_def using that key1_inj [OF assms(1)] by (auto simp: Qp_def)
  have "entries_hold Qp (POI_CACHE (run E calls)) \<and> entries_hold Qm (fetch_pois_cache (run E calls))"
  proof (rule entries_hold_run)
    show "Qm (key1 (env_repr_str E) c) []" for c by (rule empty)
    show "Qm (key1 (env_repr_str E) c) v" if "Qp (''pois_'' @ c) v" for c v
      using that by (rule up)
    fix t c data r
    assume "Fetch_pois t c (Reply data) r \<in> set calls"
    then have "Fetch_pois t c (Reply data) r \<in> ?S" by simp
    from built [OF this]
    show "Qp (''pois_'' @ c) (build_pois (env_arith E) c (get_elements data) r None [] (get_elements data))"
      by (simp add: Qp_def)
  qed
  then have h: "entries_hold Qp (POI_CACHE (run E calls))" "entries_hold Qm (fetch_pois_cache (run E calls))"
    by blast+
  have fresh: "Qp (''pois_'' @ category)
      (build_pois (env_arith E) category (get_elements data) rng None [] (get_elements data))"
    if "resp = Reply data" for data
    using built [of now category data rng] that by (simp add: Qp_def)
  from fetch_pois_entries_hold [of Qp "run E calls" Qm, OF h empty up fresh assms(2)]
  have "Qm (key1 (env_repr_str E) category) pois" by blast
  then have "G category pois" by (simp add: Qm_def)
  then show ?thesis
  proof (unfold G_def, elim disjE exE conjE)
    assume "pois = []"
    then show ?thesis by simp
  next
    fix t data r
    let ?os = "reply_outcomes (env_arith E) category r data"
    assume m: "Fetch_pois t category (Reply data) r \<in> ?S" and p: "pois = List.map_filter id ?os"
    have l: "length ?os = length (get_elements data)"
      by (simp add: reply_outcomes_def length_outcomes)
    have n: "\<exists>k b. fst (process_element (env_arith E) category (get_elements data) k b
                                 (get_elements data ! i)) = Some q"
      if "i < length (get_elements data)" "?os ! i = Some q" for i q
      using that outcomes_nth unfolding reply_outcomes_def by blast
    have d: "\<not> distinct pois"
      if "i < j" "j < length (get_elements data)" "?os ! i = Some q" "?os ! j = Some q" for i j q
      unfolding p using that l map_filter_duplicate [of i j ?os q] by simp
    from m p l n d show ?thesis by blast
  qed
qed

lemma example_outcomes:
  "reply_outcomes binary64 ''hotel'' (\<lambda>n. 0)
     \<lparr>elements = Some [example_node 1 0 0 (Some [(''name'', ''Sol'')]), example_node 2 0 0 None,
                        example_node 3 1 1 (Some [(''name'', ''Sol'')])]\<rparr> =
   [Some (example_poi ''Sol'' (0, 0) (7 / 2)), None, Some (example_poi ''Sol'' (1, 1) (7 / 2))]"
  by (simp add: reply_outcomes_def fetch_eval)

lemma example_fetch_again:
  "fst (fetch_pois example_repr binary64 10 ''hotel'' RequestFailed (\<lambda>n. 1)
          (run example_env [Fetch_pois 0 ''hotel''
             (Reply \<lparr>elements = Some [example_node 1 0 0 (Some [(''name'', ''Sol'')]), example_node 2 0 0 None,
                        example_node 3 1 1 (Some [(''name'', ''Sol'')])]\<rparr>) (\<lambda>n. 0)])) =
   Inr [example_poi ''Sol'' (0, 0) (7 / 2), example_poi ''Sol'' (1, 1) (7 / 2)]"
  by (simp add: run_def example_env_def fetch_eval)

theorem fetch_pois_keeps_every_record_witness:
  "inj (env_repr_str example_env) \<and>
   fst (fetch_pois (env_repr_str example_env) (env_arith example_env) 10 ''hotel'' RequestFailed (\<lambda>n. 1)
          (run example_env [Fetch_pois 0 ''hotel''
             (Reply \<lparr>elements = Some [example_node 1 0 0 (Some [(''name'', ''Sol'')]), example_node 2 0 0 None,
                        example_node 3 1 1 (Some [(''name'', ''Sol'')])]\<rparr>) (\<lambda>n. 0)])) =
     Inr [example_poi ''Sol'' (0, 0) (7 / 2), example_poi ''Sol'' (1, 1) (7 / 2)] \<and>
   (\<exists>t data r.
      Fetch_pois t ''hotel'' (Reply data) r \<in>
        set ([Fetch_pois 0 ''hotel''
               (Reply \<lparr>elements = Some [example_node 1 0 0 (Some [(''name'', ''Sol'')]), example_node 2 0 0 None,
                        example_node 3 1 1 (Some [(''name'', ''Sol'')])]\<rparr>) (\<lambda>n. 0)] @
             [Fetch_pois 10 ''hotel'' RequestFailed (\<lambda>n. 1)]) \<and>
      [example_poi ''Sol'' (0, 0) (7 / 2), example_poi ''Sol'' (1, 1) (7 / 2)] =
        List.map_filter id (reply_outcomes (env_arith example_env) ''hotel'' r data) \<and>
      length (reply_outcomes (env_arith example_env) ''hotel'' r data) = length (get_elements data)) \<and>
   reply_outcomes (env_arith example_env) ''hotel'' (\<lambda>n. 0)
     \<lparr>elements = Some [example_node 1 0 0 (Some [(''name'', ''Sol'')]), example_node 2 0 0 None,
                        example_node 3 1 1 (Some [(''name'', ''Sol'')])]\<rparr> =
     [Some (example_poi ''Sol'' (0, 0) (7 / 2)), None, Some (example_poi ''Sol'' (1, 1) (7 / 2))]"
proof -
  let ?data = "\<lparr>elements = Some [example_node 1 0 0 (Some [(''name'', ''Sol'')]), example_node 2 0 0 None,
                        example_node 3 1 1 (Some [(''name'', ''Sol'')])]\<rparr>"
  let ?calls = "[Fetch_pois 0 ''hotel'' (Reply ?data) (\<lambda>n. 0)]"
  let ?call = "fetch_pois (env_repr_str example_env) (env_arith example_env) 10 ''hotel'' RequestFailed (\<lambda>n. 1)
      (run example_env ?calls)"
  let ?pois = "[example_poi ''Sol'' (0, 0) (7 / 2), example_poi ''Sol'' (1, 1) (7 / 2)]"
  have i: "inj (env_repr_str example_env)" by (simp add: example_env_def inj_example_repr)
  have f: "fst ?call = Inr ?pois"
    using example_fetch_again by (simp add: example_env_def)
  then have "?call = (Inr ?pois, snd ?call)" by (simp add: prod_eq_iff)
  from fetch_pois_keeps_every_record [OF i this]
  have "\<exists>t data r.
      Fetch_pois t ''hotel'' (Reply data) r \<in> set (?calls @ [Fetch_pois 10 ''hotel'' RequestFailed (\<lambda>n. 1)]) \<and>
      ?pois = List.map_filter id (reply_outcomes (env_arith example_env) ''hotel'' r data) \<and>
      length (reply_outcomes (env_arith example_env) ''hotel'' r data) = length (get_elements data)"
    by blast
  moreover have "reply_outcomes (env_arith example_env) ''hotel'' (\<lambda>n. 0) ?data =
     [Some (example_poi ''Sol'' (0, 0) (7 / 2)), None, Some (example_poi ''Sol'' (1, 1) (7 / 2))]"
    using example_outcomes by (simp add: example_env_def)
  ultimately show ?thesis using i f by blast
qed

text \<open>
  C2 as stated fails: a reply with two nodes of the same name at the same coordinate
  yields the same record twice when the two ratings drawn are equal.
\<close>

theorem fetch_pois_duplicates_counterexample:
  "fst (fetch_pois example_repr binary64 0 ''hotel''
          (Reply \<lparr>elements = Some [example_node 1 0 0 (Some [(''name'', ''Sol'')]),
                                     example_node 2 0 0 (Some [(''name'', ''Sol'')])]\<rparr>) (\<lambda>n. 0)
          initial_world) =
     Inr [example_poi ''Sol'' (0, 0) (7 / 2), example_poi ''Sol'' (0, 0) (7 / 2)] \<and>
   \<not> distinct [example_poi ''Sol'' (0, 0) (7 / 2), example_poi ''Sol'' (0, 0) (7 / 2)]"
  using example_fetch_twice by simp

section \<open>Categories outside the enumeration\<close>

lemma getitem_Inl_not_contains:
  "getitem now k c = (Inl x, c') \<Longrightarrow> \<not> cache_contains now k c"
  by (auto simp: cache_contains_def getitem_def split: option.splits if_splits)

text \<open>
  C3, as amended: in every state that a run reaches, a call of \<^verbatim>\<open>fetch_pois\<close> with a
  category outside the enumeration returns the empty list, raises nothing and sends no
  request; it logs a warning exactly when the decorator's cache does not answer the
  call. (\<^verbatim>\<open>repr\<close> is injective on strings, so the key of an invalid category is never
  the key of a valid one.)
\<close>

theorem fetch_pois_invalid_category:
  assumes "inj (env_repr_str E)" "category \<notin> set queries"
  shows "fst (fetch_pois (env_repr_str E) (env_arith E) now category resp rng (run E calls)) = Inr [] \<and>
         sent (snd (fetch_pois (env_repr_str E) (env_arith E) now category resp rng (run E calls))) = sent (run E calls) \<and>
         warnings (snd (fetch_pois (env_repr_str E) (env_arith E) now category resp rng (run E calls))) =
           (if cache_contains now (key1 (env_repr_str E) category) (fetch_pois_cache (run E calls))
            then warnings (run E calls) else warnings (run E calls) @ [category])"
proof -
  define Qp :: "string \<Rightarrow> poi list \<Rightarrow> bool" where "Qp = (\<lambda>k v. True)"
  define Qm :: "string \<Rightarrow> poi list \<Rightarrow> bool"
    where "Qm = (\<lambda>k v. \<forall>c. c \<notin> set queries \<longrightarrow> k = key1 (env_repr_str E) c \<longrightarrow> v = [])"
  have "entries_hold Qp (POI_CACHE (run E calls)) \<and> entries_hold Qm (fetch_pois_cache (run E calls))"
  proof (rule entries_hold_run)
    show "Qm (key1 (env_repr_str E) c) []" for c by (simp add: Qm_def)
    show "Qm (key1 (env_repr_str E) c) v" if "c \<in> set queries" for c v
      unfolding Qm_def using that key1_inj [OF assms(1)] by blast
    show "Qp (''pois_'' @ c) (build_pois (env_arith E) c (get_elements data) r None [] (get_elements data))" for c data r
      by (simp add: Qp_def)
  qed
  then have memo: "entries_hold Qm (fetch_pois_cache (run E calls))" by blast
  obtain r w' where f: "fetch_pois (env_repr_str E) (env_arith E) now category resp rng (run E calls) = (r, w')"
    by force
  from f tiers_ok_run [of E calls] have
    "r = Inr [] \<and> sent w' = sent (run E calls) \<and>
     warnings w' =
       (if cache_contains now (key1 (env_repr_str E) category) (fetch_pois_cache (run E calls))
        then warnings (run E calls) else warnings (run E calls) @ [category])"
  proof (cases rule: fetch_pois_cases)
    case (hit v m1)
    from entries_hold_getitem [OF memo hit(1)] have "Qm (key1 (env_repr_str E) category) v" by blast
    with assms(2) have "v = []" by (simp add: Qm_def)
    with hit getitem_Inr_contains [OF hit(1)] show ?thesis by simp
  next
    case (invalid x m1 m2)
    with getitem_Inl_not_contains [OF invalid(2)] show ?thesis by simp
  next
    case (poi_hit x m1 v p1 m2)
    with assms(2) show ?thesis by simp
  next
    case (failed x m1 m2)
    with assms(2) show ?thesis by simp
  next
    case (fetched x m1 data p1 m2)
    with assms(2) show ?thesis by simp
  qed
  with f show ?thesis by simp
qed


theorem fetch_pois_invalid_category_witness:
  "inj (env_repr_str example_env) \<and> ''x'' \<notin> set queries \<and>
   fst (fetch_pois (env_repr_str example_env) (env_arith example_env) 0 ''x'' RequestFailed (\<lambda>n. 0) (run example_env [])) = Inr [] \<and>
   sent (snd (fetch_pois (env_repr_str example_env) (env_arith example_env) 0 ''x'' RequestFailed (\<lambda>n. 0) (run example_env []))) = [] \<and>
   warnings (snd (fetch_pois (env_repr_str example_env) (env_arith example_env) 0 ''x'' RequestFailed (\<lambda>n. 0) (run example_env [])))
     = [''x'']"
proof -
  have i: "inj (env_repr_str example_env)" by (simp add: example_env_def inj_example_repr)
  have q: "''x'' \<notin> set queries" by (simp add: queries_def)
  from fetch_pois_invalid_category [OF i q, of 0 RequestFailed "\<lambda>n. 0" "[]"] i q
  show ?thesis
    by (simp add: run_def initial_world_def TTLCache_def cache_contains_def)
qed

text \<open>
  C3 as stated fails in its last part: a second call with the same invalid category is
  answered by the decorator's cache, the body does not run and no warning is logged; the
  state is left as it was.
\<close>

theorem fetch_pois_invalid_category_no_warning_counterexample:
  "warnings (run example_env [Fetch_pois 0 ''x'' RequestFailed (\<lambda>n. 0)]) = [''x''] \<and>
   fetch_pois example_repr binary64 0 ''x'' RequestFailed (\<lambda>n. 0)
       (run example_env [Fetch_pois 0 ''x'' RequestFailed (\<lambda>n. 0)]) =
     (Inr [], run example_env [Fetch_pois 0 ''x'' RequestFailed (\<lambda>n. 0)])"
  by (simp add: run_def example_env_def fetch_eval)

section \<open>Capacity and eviction\<close>

lemma setitem_new_key:
  assumes "tier m t c" "1 \<le> m" "k \<notin> fst ` set (filter (unexpired now) (links c))"
  shows "setitem now k v c =
           Inr (c\<lparr>links :=
                  (if length (filter (unexpired now) (links c)) = m
                   then tl (filter (unexpired now) (links c))
                   else filter (unexpired now) (links c)) @ [(k, v, now + t)]\<rparr>)"
proof -
  let ?ls = "filter (unexpired now) (links c)"
  from assms(1) have n: "length ?ls \<le> m" and mt: "maxsize c = m" "ttl c = t"
    by (auto simp: tier_def intro: le_trans [OF length_filter_le])
  have p: "popitems m ?ls = (if length ?ls = m then tl ?ls else ?ls)"
    using n assms(2) by (auto simp: popitems_full popitems_room)
  have "k \<notin> fst ` set (popitems m ?ls)"
    using assms(3) set_popitems [of m ?ls] by blast
  then have f: "filter (\<lambda>l. fst l \<noteq> k) (popitems m ?ls) = popitems m ?ls"
    by (auto simp: filter_id_conv)
  show ?thesis
    using assms(2,3) mt f p
    by (simp add: setitem_def expire_def Let_def move_to_end_def del: popitems.simps)
qed

lemma getitem_most_recent:
  assumes "k \<in> fst ` set (links c)"
  shows "fst (last (links (snd (getitem now k c)))) = k"
proof -
  from assms obtain ve where "map_of (links c) k = Some ve"
    by (metis map_of_eq_None_iff not_Some_eq)
  then show ?thesis by (cases ve) (simp add: getitem_def move_to_end_def)
qed

text \<open>
  C6: each of the module's cache tiers holds at most 100 entries in every state a run
  reaches. For any tier of capacity 100: reading a key leaves it a tier and makes the key
  the most recently used one; storing a key never fails and leaves a tier; and storing
  a key that is not among the unexpired entries first drops the expired entries and
  then, when 100 unexpired entries remain (the tier is full), evicts exactly the least
  recently used of them and appends the new entry as the most recently used.
\<close>

theorem tiers_bounded_and_evict_lru:
  fixes c :: "('k, 'v) ttl_cache"
  assumes "tier 100 t c"
  shows "length (links (CACHE (run E calls))) \<le> 100 \<and>
         length (links (POI_CACHE (run E calls))) \<le> 100 \<and>
         length (links (fetch_pois_cache (run E calls))) \<le> 100 \<and>
         length (links (fetch_weather_cache (run E calls))) \<le> 100 \<and>
         tier 100 t (snd (getitem now k c)) \<and>
         (k \<in> fst ` set (links c) \<longrightarrow> fst (last (links (snd (getitem now k c)))) = k) \<and>
         (case setitem now k v c of
            Inl e \<Rightarrow> False
          | Inr c' \<Rightarrow>
              tier 100 t c' \<and>
              (k \<notin> fst ` set (filter (unexpired now) (links c)) \<longrightarrow>
                 links c' =
                   (if length (filter (unexpired now) (links c)) = 100
                    then tl (filter (unexpired now) (links c))
                    else filter (unexpired now) (links c)) @ [(k, v, now + t)]))"
proof -
  from tiers_ok_run [of E calls] have
    "length (links (CACHE (run E calls))) \<le> 100 \<and>
     length (links (POI_CACHE (run E calls))) \<le> 100 \<and>
     length (links (fetch_pois_cache (run E calls))) \<le> 100 \<and>
     length (links (fetch_weather_cache (run E calls))) \<le> 100"
    by (simp add: tiers_ok_def tier_def)
  moreover have "tier 100 t (snd (getitem now k c))"
    using tier_getitem [OF assms, of now k] by (cases "getitem now k c") simp
  moreover note getitem_most_recent [of k c now]
  moreover from tier_setitem [OF assms, of now k v] obtain c' where
    s: "setitem now k v c = Inr c'" and t: "tier 100 t c'" by auto
  have "links c' = (if length (filter (unexpired now) (links c)) = 100
                    then tl (filter (unexpired now) (links c))
                    else filter (unexpired now) (links c)) @ [(k, v, now + t)]"
    if "k \<notin> fst ` set (filter (unexpired now) (links c))"
    using setitem_new_key [OF assms _ that, of v] s by simp
  with s t have "case setitem now k v c of
            Inl e \<Rightarrow> False
          | Inr c' \<Rightarrow>
              tier 100 t c' \<and>
              (k \<notin> fst ` set (filter (unexpired now) (links c)) \<longrightarrow>
                 links c' =
                   (if length (filter (unexpired now) (links c)) = 100
                    then tl (filter (unexpired now) (links c))
                    else filter (unexpired now) (links c)) @ [(k, v, now + t)])"
    by simp
  ultimately show ?thesis by blast
qed


theorem tiers_bounded_and_evict_lru_witness:
  "tier 100 5 example_full_cache \<and>
   (\<exists>c'. setitem 0 100 () example_full_cache = Inr c' \<and>
         links c' = map (\<lambda>i. (i, (), 10)) [1..<100] @ [(100, (), 5)])"
proof -
  have t: "tier 100 5 example_full_cache"
    by (simp add: tier_def example_full_cache_def comp_def)
  have ls: "filter (unexpired 0) (links example_full_cache) = map (\<lambda>i. (i, (), 10)) [0..<100]"
    by (simp add: example_full_cache_def filter_map comp_def unexpired_def)
  have new: "100 \<notin> fst ` set (filter (unexpired 0) (links example_full_cache))"
    unfolding ls by (simp add: image_comp comp_def)
  have tl: "tl (map (\<lambda>i. (i, (), 10::rat)) [0..<100]) = map (\<lambda>i. (i, (), 10)) [1..<100]"
    by (simp add: map_tl [symmetric] del: map_tl)
  from tiers_bounded_and_evict_lru [OF t, of example_env "[]" 0 100 "()"] new
  obtain c' where "setitem 0 100 () example_full_cache = Inr c'"
    "links c' = tl (map (\<lambda>i. (i, (), 10)) [0..<100]) @ [(100, (), 5)]"
    by (auto simp: ls split: sum.splits)
  with t show ?thesis unfolding tl by blast
qed

section \<open>How long an entry survives in a tier\<close>

lemma recent_lookup:
  assumes "recent k v e n c" "distinct (map fst (links c))"
  shows "map_of (links c) k = Some (v, e)"
proof -
  from assms(1) obtain pre post where l: "links c = pre @ (k, v, e) # post"
    by (auto simp: recent_def)
  with assms(2) have "k \<notin> fst ` set pre" by auto
  then have "map_of pre k = None" by (simp add: map_of_eq_None_iff)
  with l show ?thesis by (simp add: map_of_append map_add_def)
qed

lemma recent_mono: "recent k v e n c \<Longrightarrow> n \<le> m \<Longrightarrow> recent k v e m c"
  by (auto simp: recent_def intro: le_trans)

lemma recent_getitem_same:
  assumes "recent k v e n c" "distinct (map fst (links c))" "now < e"
  shows "\<exists>c'. getitem now k c = (Inr v, c') \<and> recent k v e 0 c'"
proof -
  from recent_lookup [OF assms(1,2)] assms(3)
  have "getitem now k c = (Inr v, c\<lparr>links := filter (\<lambda>l. fst l \<noteq> k) (links c) @ [(k, v, e)]\<rparr>)"
    by (simp add: getitem_def move_to_end_def)
  moreover have "recent k v e 0 (c\<lparr>links := filter (\<lambda>l. fst l \<noteq> k) (links c) @ [(k, v, e)]\<rparr>)"
    unfolding recent_def by (rule exI [of _ "filter (\<lambda>l. fst l \<noteq> k) (links c)"], rule exI [of _ "[]"]) simp
  ultimately show ?thesis by blast
qed

lemma recent_getitem_other:
  assumes "recent k v e n c" "k' \<noteq> k" "getitem now k' c = (r, c')"
  shows "recent k v e (Suc n) c'"
proof (cases "map_of (links c) k'")
  case None
  with assms show ?thesis by (auto simp: getitem_def intro: recent_mono)
next
  case (Some ve)
  from assms(1) obtain pre post where l: "links c = pre @ (k, v, e) # post" and n: "length post \<le> n"
    by (auto simp: recent_def)
  let ?f = "filter (\<lambda>l. fst l \<noteq> k')"
  from Some assms(3) have "links c' = ?f (links c) @ [(k', ve)]"
    by (cases ve) (auto simp: getitem_def move_to_end_def)
  with l assms(2) have "links c' = ?f pre @ (k, v, e) # (?f post @ [(k', ve)])" by simp
  moreover have "length (?f post @ [(k', ve)]) \<le> Suc n"
    using n le_trans [OF length_filter_le n] by simp
  ultimately show ?thesis unfolding recent_def by blast
qed

lemma unexpired_after_miss:
  assumes "getitem now k' c = (Inl x, c1)"
  shows "filter (unexpired now) (links c1) =
           filter (unexpired now) (filter (\<lambda>l. fst l \<noteq> k') (links c)) \<and>
         k' \<notin> fst ` set (filter (unexpired now) (links c1))"
proof (cases "map_of (links c) k'")
  case None
  then have "k' \<notin> fst ` set (links c)" by (simp add: map_of_eq_None_iff)
  then have "filter (\<lambda>l. fst l \<noteq> k') (links c) = links c" by (auto simp: filter_id_conv)
  with None assms \<open>k' \<notin> fst ` set (links c)\<close> show ?thesis by (auto simp: getitem_def)
next
  case (Some ve)
  with assms have "links c1 = filter (\<lambda>l. fst l \<noteq> k') (links c) @ [(k', ve)]" "\<not> now < snd ve"
    by (cases ve; auto simp: getitem_def move_to_end_def split: if_splits)+
  then show ?thesis by (auto simp: unexpired_def)
qed

lemma recent_store_after_miss:
  assumes "tier 100 t c" "recent k v e n c" "n \<le> 98" "k' \<noteq> k" "now < e"
    and "getitem now k' c = (Inl x, c1)" "setitem now k' v' c1 = Inr c2"
  shows "recent k v e (Suc n) c2"
proof -
  let ?f = "\<lambda>ls. filter (unexpired now) (filter (\<lambda>l. fst l \<noteq> k') ls)"
  from assms(2) obtain pre post where l: "links c = pre @ (k, v, e) # post" and n: "length post \<le> n"
    by (auto simp: recent_def)
  from unexpired_after_miss [OF assms(6)] have
    u: "filter (unexpired now) (links c1) = ?f (links c)" and
    new: "k' \<notin> fst ` set (filter (unexpired now) (links c1))" by blast+
  from l assms(4,5) have ls: "?f (links c) = ?f pre @ (k, v, e) # ?f post"
    by (simp add: unexpired_def)
  have np: "length (?f post) \<le> n"
    by (rule le_trans [OF _ n]) (rule le_trans [OF length_filter_le length_filter_le])
  from tier_getitem [OF assms(1,6)] have t1: "tier 100 t c1" .
  from setitem_new_key [OF t1 _ new, of v'] assms(7) have
    c2: "links c2 = (if length (?f (links c)) = 100 then tl (?f (links c)) else ?f (links c)) @
           [(k', v', now + t)]"
    by (simp add: u)
  show ?thesis
  proof (cases "length (?f (links c)) = 100")
    case True
    with ls np assms(3) have "?f pre \<noteq> []" by auto
    with c2 True ls have "links c2 = tl (?f pre) @ (k, v, e) # (?f post @ [(k', v', now + t)])"
      by simp
    moreover have "length (?f post @ [(k', v', now + t)]) \<le> Suc n" using np by simp
    ultimately show ?thesis unfolding recent_def by blast
  next
    case False
    with c2 ls have "links c2 = ?f pre @ (k, v, e) # (?f post @ [(k', v', now + t)])" by simp
    moreover have "length (?f post @ [(k', v', now + t)]) \<le> Suc n" using np by simp
    ultimately show ?thesis unfolding recent_def by blast
  qed
qed

lemma recent_after_setitem:
  assumes "setitem now k v c = Inr c'"
  shows "recent k v (now + ttl c) 0 c'"
  using assms unfolding recent_def
  by (auto simp: setitem_def Let_def move_to_end_def split: if_splits)

lemma tier_distinct: "tier m t c \<Longrightarrow> distinct (map fst (links c))"
  by (simp add: tier_def)

lemma fetch_pois_keeps_recent:
  assumes "fetch_pois repr ar now c resp rng w = (r, w')" "tiers_ok w"
    and "recent K v e n (fetch_pois_cache w)" "n \<le> 98" "now < e"
  shows "recent K v e (Suc n) (fetch_pois_cache w')"
proof -
  from assms(2) have tm: "tier 100 3600 (fetch_pois_cache w)" by (simp add: tiers_ok_def)
  show ?thesis
  proof (cases "key1 repr c = K")
    case True
    from recent_getitem_same [OF assms(3) tier_distinct [OF tm] assms(5)] obtain m where
      g: "getitem now K (fetch_pois_cache w) = (Inr v, m)" and rm: "recent K v e 0 m" by blast
    from assms(1) g True have "w' = w\<lparr>fetch_pois_cache := m\<rparr>"
      by (auto simp: fetch_pois_def wrapper_def)
    with rm show ?thesis by (auto intro: recent_mono)
  next
    case False
    note other = recent_getitem_other [OF assms(3) False]
    note store = recent_store_after_miss [OF tm assms(3,4) False assms(5)]
    from assms(1,2) show ?thesis
    proof (cases rule: fetch_pois_cases)
      case (hit v' m1)
      with other show ?thesis by simp
    next
      case (invalid x m1 m2)
      with store show ?thesis by simp
    next
      case (poi_hit x m1 v' p1 m2)
      with store show ?thesis by simp
    next
      case (failed x m1 m2)
      with store show ?thesis by simp
    next
      case (fetched x m1 data p1 m2)
      with store show ?thesis by simp
    qed
  qed
qed

lemma fetch_pois_served_from_memo:
  assumes "tiers_ok w" "recent (key1 repr c) v e n (fetch_pois_cache w)" "now < e"
  shows "fetch_pois repr ar now c resp rng w =
           (Inr v, w\<lparr>fetch_pois_cache := snd (getitem now (key1 repr c) (fetch_pois_cache w))\<rparr>)"
proof -
  from assms(1) have tm: "tier 100 3600 (fetch_pois_cache w)" by (simp add: tiers_ok_def)
  from recent_getitem_same [OF assms(2) tier_distinct [OF tm] assms(3)] obtain m where
    "getitem now (key1 repr c) (fetch_pois_cache w) = (Inr v, m)" by blast
  then show ?thesis by (simp add: fetch_pois_def wrapper_def)
qed

lemma fetch_weather_keeps_recent:
  assumes "fetch_weather repr cap api_key now lat lon resp w = (r, w')" "tiers_ok w"
    and "recent K v e n (fetch_weather_cache w)" "n \<le> 98" "now < e"
  shows "recent K v e (Suc n) (fetch_weather_cache w')"
proof -
  from assms(2) have tm: "tier 100 300 (fetch_weather_cache w)" by (simp add: tiers_ok_def)
  show ?thesis
  proof (cases "key2 repr lat lon = K")
    case True
    from recent_getitem_same [OF assms(3) tier_distinct [OF tm] assms(5)] obtain m where
      g: "getitem now K (fetch_weather_cache w) = (Inr v, m)" and rm: "recent K v e 0 m" by blast
    from assms(1) g True have "w' = w\<lparr>fetch_weather_cache := m\<rparr>"
      by (auto simp: fetch_weather_def wrapper_def)
    with rm show ?thesis by (auto intro: recent_mono)
  next
    case False
    note other = recent_getitem_other [OF assms(3) False]
    note store = recent_store_after_miss [OF tm assms(3,4) False assms(5)]
    from assms(1,2) show ?thesis
    proof (cases rule: fetch_weather_cases)
      case (hit v' m1)
      with other show ?thesis by simp
    next
      case (no_key x m1 m2)
      with store show ?thesis by simp
    next
      case (failed x m1 m2)
      with store show ?thesis by simp
    next
      case (malformed x m1 data e)
      with other show ?thesis by simp
    next
      case (fetched x m1 data s m2)
      with store show ?thesis by simp
    qed
  qed
qed

lemma fetch_weather_served_from_memo:
  assumes "tiers_ok w" "recent (key2 repr lat lon) v e n (fetch_weather_cache w)" "now < e"
  shows "fetch_weather repr cap api_key now lat lon resp w =
           (Inr v, w\<lparr>fetch_weather_cache := snd (getitem now (key2 repr lat lon) (fetch_weather_cache w))\<rparr>)"
proof -
  from assms(1) have tm: "tier 100 300 (fetch_weather_cache w)" by (simp add: tiers_ok_def)
  from recent_getitem_same [OF assms(2) tier_distinct [OF tm] assms(3)] obtain m where
    "getitem now (key2 repr lat lon) (fetch_weather_cache w) = (Inr v, m)" by blast
  then show ?thesis by (simp add: fetch_weather_def wrapper_def)
qed

lemma tiers_ok_fold: "tiers_ok w \<Longrightarrow> tiers_ok (fold (step E) calls w)"
proof (induction calls rule: rev_induct)
  case Nil
  then show ?case by simp
next
  case (snoc call calls)
  then show ?case using step_frame by simp
qed

lemma run_append: "run E (pre @ calls) = fold (step E) calls (run E pre)"
  by (simp add: run_def)

lemma fold_keeps_recent_pois:
  assumes "tiers_ok w" "recent K v e 0 (fetch_pois_cache w)"
    and "\<forall>call \<in> set calls. called_before e call"
    and "length (filter is_fetch_pois calls) \<le> 99"
  shows "recent K v e (length (filter is_fetch_pois calls)) (fetch_pois_cache (fold (step E) calls w))"
  using assms(3,4)
proof (induction calls rule: rev_induct)
  case Nil
  with assms(2) show ?case by simp
next
  case (snoc call calls)
  let ?w = "fold (step E) calls w"
  from snoc have IH: "recent K v e (length (filter is_fetch_pois calls)) (fetch_pois_cache ?w)"
    by simp
  have t: "tiers_ok ?w" by (rule tiers_ok_fold [OF assms(1)])
  show ?case
  proof (cases call)
    case (Fetch_pois now c resp rng)
    obtain r w' where f: "fetch_pois (env_repr_str E) (env_arith E) now c resp rng ?w = (r, w')" by force
    from snoc.prems Fetch_pois have "length (filter is_fetch_pois calls) \<le> 98" "now < e" by simp_all
    from fetch_pois_keeps_recent [OF f t IH this] f Fetch_pois show ?thesis by simp
  next
    case (Fetch_weather now lat lon resp)
    with step_frame [OF t, of E call] IH show ?thesis by simp
  next
    case (Get_directions args resp)
    with step_frame [OF t, of E call] IH show ?thesis by simp
  qed
qed

lemma fold_keeps_recent_weather:
  assumes "tiers_ok w" "recent K v e 0 (fetch_weather_cache w)"
    and "\<forall>call \<in> set calls. called_before e call"
    and "length (filter is_fetch_weather calls) \<le> 99"
  shows "recent K v e (length (filter is_fetch_weather calls)) (fetch_weather_cache (fold (step E) calls w))"
  using assms(3,4)
proof (induction calls rule: rev_induct)
  case Nil
  with assms(2) show ?case by simp
next
  case (snoc call calls)
  let ?w = "fold (step E) calls w"
  from snoc have IH: "recent K v e (length (filter is_fetch_weather calls)) (fetch_weather_cache ?w)"
    by simp
  have t: "tiers_ok ?w" by (rule tiers_ok_fold [OF assms(1)])
  show ?case
  proof (cases call)
    case (Fetch_pois now c resp rng)
    obtain r w' where f: "fetch_pois (env_repr_str E) (env_arith E) now c resp rng ?w = (r, w')" by force
    from f t have "fetch_weather_cache w' = fetch_weather_cache ?w"
      by (cases rule: fetch_pois_cases) simp_all
    with f Fetch_pois IH show ?thesis by simp
  next
    case (Fetch_weather now lat lon resp)
    obtain r w' where f: "fetch_weather (env_repr_float E) (env_capitalize E) (env_api_key E) now lat lon resp ?w = (r, w')"
      by force
    from snoc.prems Fetch_weather have "length (filter is_fetch_weather calls) \<le> 98" "now < e" by simp_all
    from fetch_weather_keeps_recent [OF f t IH this] f Fetch_weather show ?thesis by simp
  next
    case (Get_directions args resp)
    with get_directions_frame [of "env_float E" args resp ?w] IH show ?thesis by auto
  qed
qed

section \<open>Memoised results and their eviction\<close>

lemma store_new_key:
  assumes "tier 100 t c" "k \<notin> fst ` set (links c)" "\<forall>l \<in> set (links c). now < snd (snd l)"
  shows "getitem now k c = (Inl KeyError, c) \<and>
         setitem now k v c =
           Inr (c\<lparr>links := (if length (links c) = 100 then tl (links c) else links c) @
                  [(k, v, now + t)]\<rparr>)"
proof -
  from assms(2) have "map_of (links c) k = None" by (simp add: map_of_eq_None_iff)
  then have g: "getitem now k c = (Inl KeyError, c)" by (simp add: getitem_def)
  from assms(3) have u: "filter (unexpired now) (links c) = links c"
    by (auto simp: filter_id_conv unexpired_def)
  from setitem_new_key [OF assms(1), of k now v] assms(2) g show ?thesis by (simp add: u)
qed

lemma fill_links:
  assumes "n < 100"
  shows "(if length (if n < 100 then x # map f [0..<n] else map f [0..<100]) = 100
          then tl (if n < 100 then x # map f [0..<n] else map f [0..<100])
          else (if n < 100 then x # map f [0..<n] else map f [0..<100])) @ [f n] =
         (if Suc n < 100 then x # map f [0..<Suc n] else map f [0..<100])"
proof (cases "Suc n < 100")
  case True
  then show ?thesis by simp
next
  case False
  with assms have n: "n = 99" by simp
  have "[0..<Suc 99] = [0..<99] @ [99]" by (rule upt_Suc_append) simp
  then have "[0..<100] = [0..<99] @ [99::nat]" by simp
  with n show ?thesis by simp
qed

lemma invalid_miss_step:
  assumes "c \<notin> set queries" "tiers_ok w"
    and "key1 repr c \<notin> fst ` set (links (fetch_pois_cache w))"
    and "\<forall>l \<in> set (links (fetch_pois_cache w)). now < snd (snd l)"
  shows "snd (fetch_pois repr ar now c resp rng w) =
           w\<lparr>fetch_pois_cache := (fetch_pois_cache w)\<lparr>links :=
                (if length (links (fetch_pois_cache w)) = 100 then tl (links (fetch_pois_cache w))
                 else links (fetch_pois_cache w)) @ [(key1 repr c, [], now + 3600)]\<rparr>,
             warnings := warnings w @ [c]\<rparr>"
proof -
  from assms(2) have "tier 100 3600 (fetch_pois_cache w)" by (simp add: tiers_ok_def)
  from store_new_key [OF this assms(3,4), of "[]"] assms(1) show ?thesis
    by (simp add: fetch_pois_def wrapper_def fetch_pois_body_def)
qed


lemma filler_not_valid: "replicate (Suc i) CHR ''x'' \<notin> set queries"
  by (simp add: queries_def)

lemma pois_memo_filled:
  "n \<le> 100 \<Longrightarrow>
   fetch_pois_cache (run example_env (Fetch_pois 0 ''hotel'' RequestFailed (\<lambda>n. 0) # other_pois_calls n)) =
     \<lparr>maxsize = 100, ttl = 3600,
      links = (if n < 100
               then (key1 example_repr ''hotel'', [], 3600) #
                    map (\<lambda>i. (key1 example_repr (replicate (Suc i) CHR ''x''), [], 3600)) [0..<n]
               else map (\<lambda>i. (key1 example_repr (replicate (Suc i) CHR ''x''), [], 3600)) [0..<100])\<rparr> \<and>
   POI_CACHE (run example_env (Fetch_pois 0 ''hotel'' RequestFailed (\<lambda>n. 0) # other_pois_calls n)) =
     TTLCache 100 86400 \<and>
   sent (run example_env (Fetch_pois 0 ''hotel'' RequestFailed (\<lambda>n. 0) # other_pois_calls n)) = [Overpass]"
proof (induction n)
  case 0
  show ?case
    by (simp add: other_pois_calls_def run_def example_env_def fetch_eval)
next
  case (Suc n)
  let ?first = "Fetch_pois 0 ''hotel'' RequestFailed (\<lambda>n. 0)"
  let ?c = "replicate (Suc n) CHR ''x''"
  let ?w = "run example_env (?first # other_pois_calls n)"
  let ?f = "\<lambda>i. (key1 example_repr (replicate (Suc i) CHR ''x''), [] :: poi list, 3600 :: rat)"
  let ?x = "(key1 example_repr ''hotel'', [] :: poi list, 3600 :: rat)"
  let ?L = "if n < 100 then ?x # map ?f [0..<n] else map ?f [0..<100]"
  from Suc have n: "n < 100" by simp
  with Suc have IH: "fetch_pois_cache ?w = \<lparr>maxsize = 100, ttl = 3600, links = ?L\<rparr>"
    "POI_CACHE ?w = TTLCache 100 86400" "sent ?w = [Overpass]" by simp_all
  have run: "run example_env (?first # other_pois_calls (Suc n)) =
      snd (fetch_pois example_repr binary64 0 ?c RequestFailed (\<lambda>n. 0) ?w)"
    using run_snoc [of example_env "?first # other_pois_calls n" "Fetch_pois 0 ?c RequestFailed (\<lambda>n. 0)"]
    by (simp add: other_pois_calls_def example_env_def)
  have new: "key1 example_repr ?c \<notin> fst ` set (links (fetch_pois_cache ?w))"
    using n by (auto simp: IH key1_def example_repr_def)
  have live: "\<forall>l \<in> set (links (fetch_pois_cache ?w)). 0 < snd (snd l)"
    using n by (auto simp: IH)
  from invalid_miss_step [OF filler_not_valid tiers_ok_run new live, of binary64 RequestFailed "\<lambda>n. 0"]
  have "run example_env (?first # other_pois_calls (Suc n)) =
      ?w\<lparr>fetch_pois_cache := \<lparr>maxsize = 100, ttl = 3600,
             links = (if length ?L = 100 then tl ?L else ?L) @ [?f n]\<rparr>,
          warnings := warnings ?w @ [?c]\<rparr>"
    by (simp only: run IH(1) ttl_cache.simps) simp
  with fill_links [OF n, of ?x ?f] IH show ?case by simp
qed

lemma failed_miss_step:
  assumes "api_key \<noteq> None" "api_key \<noteq> Some []" "tiers_ok w"
    and "key2 repr lat lon \<notin> fst ` set (links (fetch_weather_cache w))"
    and "\<forall>l \<in> set (links (fetch_weather_cache w)). now < snd (snd l)"
  shows "snd (fetch_weather repr cap api_key now lat lon RequestFailed w) =
           w\<lparr>fetch_weather_cache := (fetch_weather_cache w)\<lparr>links :=
                (if length (links (fetch_weather_cache w)) = 100 then tl (links (fetch_weather_cache w))
                 else links (fetch_weather_cache w)) @ [(key2 repr lat lon, None, now + 300)]\<rparr>,
             sent := sent w @ [OpenWeatherMap]\<rparr>"
proof -
  from assms(3) have "tier 100 300 (fetch_weather_cache w)" by (simp add: tiers_ok_def)
  from store_new_key [OF this assms(4,5), of None] assms(1,2) show ?thesis
    by (simp add: fetch_weather_def wrapper_def fetch_weather_body_def)
qed

lemma example_weather_key:
  "key2 example_repr_float (of_nat i) 0 = ''('' @ replicate i CHR ''1'' @ '', ){}''"
  by (simp add: key2_def example_repr_float_def)

lemma weather_memo_filled:
  "n \<le> 100 \<Longrightarrow>
   fetch_weather_cache (run example_env (Fetch_weather 0 0 0 RequestFailed # other_weather_calls n)) =
     \<lparr>maxsize = 100, ttl = 300,
      links = (if n < 100
               then (key2 example_repr_float 0 0, None, 300) #
                    map (\<lambda>i. (key2 example_repr_float (of_nat (Suc i)) 0, None, 300)) [0..<n]
               else map (\<lambda>i. (key2 example_repr_float (of_nat (Suc i)) 0, None, 300)) [0..<100])\<rparr> \<and>
   sent (run example_env (Fetch_weather 0 0 0 RequestFailed # other_weather_calls n)) =
     replicate (Suc n) OpenWeatherMap"
proof (induction n)
  case 0
  show ?case
    by (simp add: other_weather_calls_def run_def example_env_def fetch_weather_def wrapper_def
        getitem_def initial_world_def TTLCache_def fetch_weather_body_def setitem_def expire_def
        move_to_end_def Let_def)
next
  case (Suc n)
  let ?first = "Fetch_weather 0 0 0 RequestFailed"
  let ?w = "run example_env (?first # other_weather_calls n)"
  let ?f = "\<lambda>i. (key2 example_repr_float (of_nat (Suc i)) 0, None :: weather option, 300 :: rat)"
  let ?x = "(key2 example_repr_float 0 0, None :: weather option, 300 :: rat)"
  let ?L = "if n < 100 then ?x # map ?f [0..<n] else map ?f [0..<100]"
  from Suc have n: "n < 100" by simp
  with Suc have IH: "fetch_weather_cache ?w = \<lparr>maxsize = 100, ttl = 300, links = ?L\<rparr>"
    "sent ?w = replicate (Suc n) OpenWeatherMap" by simp_all
  have run: "run example_env (?first # other_weather_calls (Suc n)) =
      snd (fetch_weather example_repr_float (\<lambda>s. s) (Some ''k'') 0 (of_nat (Suc n)) 0 RequestFailed ?w)"
    using run_snoc [of example_env "?first # other_weather_calls n" "Fetch_weather 0 (of_nat (Suc n)) 0 RequestFailed"]
    by (simp add: other_weather_calls_def example_env_def)
  have k0: "key2 example_repr_float 0 0 = ''('' @ replicate 0 CHR ''1'' @ '', ){}''"
    using example_weather_key [of 0] by simp
  have new: "key2 example_repr_float (of_nat (Suc n)) 0 \<notin> fst ` set (links (fetch_weather_cache ?w))"
    using n unfolding IH by (auto simp: example_weather_key k0 simp del: of_nat_Suc)
  have live: "\<forall>l \<in> set (links (fetch_weather_cache ?w)). 0 < snd (snd l)"
    using n by (auto simp: IH)
  from failed_miss_step [OF _ _ tiers_ok_run new live, of "Some ''k''" "\<lambda>s. s"]
  have "run example_env (?first # other_weather_calls (Suc n)) =
      ?w\<lparr>fetch_weather_cache := \<lparr>maxsize = 100, ttl = 300,
             links = (if length ?L = 100 then tl ?L else ?L) @ [?f n]\<rparr>,
          sent := sent ?w @ [OpenWeatherMap]\<rparr>"
    by (simp only: run IH(1) ttl_cache.simps) simp
  with fill_links [OF n, of ?x ?f] IH show ?case by (simp add: replicate_append_same)
qed

lemma example_snapshot: "snapshot (\<lambda>s. s) example_weather_reply = Inr example_weather"
  by (simp add: snapshot_def subscript_def example_weather_reply_def example_weather_def
      py_round_def round_half_even_def)

text \<open>
  C10, as amended: after a call \<^verbatim>\<open>fetch_pois(category)\<close> at clock reading \<open>t0\<close> that
  asked the provider and whose request failed, every later call for the same category
  at a clock reading before \<open>t0 + 3600\<close> returns the empty list and sends no request,
  provided that at most 99 calls of \<^verbatim>\<open>fetch_pois\<close> were made in between. The failure
  is memoised by the decorator as one entry of a tier of 100 entries; it was never
  stored in the POI tier.
\<close>

theorem failed_fetch_is_memoised:
  assumes "sent (run E (pre @ [Fetch_pois t0 category RequestFailed rng0])) \<noteq> sent (run E pre)"
    and "\<forall>call \<in> set mid. called_before (t0 + 3600) call"
    and "length (filter is_fetch_pois mid) \<le> 99"
    and "now < t0 + 3600"
  shows "fst (fetch_pois (env_repr_str E) (env_arith E) now category resp rng
               (run E (pre @ Fetch_pois t0 category RequestFailed rng0 # mid))) = Inr [] \<and>
         sent (snd (fetch_pois (env_repr_str E) (env_arith E) now category resp rng
               (run E (pre @ Fetch_pois t0 category RequestFailed rng0 # mid)))) =
           sent (run E (pre @ Fetch_pois t0 category RequestFailed rng0 # mid))"
proof -
  let ?K = "key1 (env_repr_str E) category"
  let ?w = "run E pre"
  let ?first = "Fetch_pois t0 category RequestFailed rng0"
  obtain r0 w0 where f: "fetch_pois (env_repr_str E) (env_arith E) t0 category RequestFailed rng0 ?w = (r0, w0)"
    by force
  then have w0: "run E (pre @ [?first]) = w0" by (simp add: run_snoc)
  have t: "tiers_ok ?w" by (rule tiers_ok_run)
  from f t have "recent ?K [] (t0 + 3600) 0 (fetch_pois_cache w0)"
  proof (cases rule: fetch_pois_cases)
    case (failed x m1 m2)
    from t have "tier 100 3600 (fetch_pois_cache ?w)" by (simp add: tiers_ok_def)
    from tier_getitem [OF this failed(2)] have "ttl m1 = 3600" by (simp add: tier_def)
    with recent_after_setitem [OF failed(5)] failed show ?thesis by simp
  qed (use assms(1) w0 in auto)
  moreover have t0: "tiers_ok w0" using w0 tiers_ok_run [of E "pre @ [?first]"] by simp
  ultimately have "recent ?K [] (t0 + 3600) (length (filter is_fetch_pois mid))
      (fetch_pois_cache (fold (step E) mid w0))"
    using assms(2,3) by (intro fold_keeps_recent_pois)
  moreover have "run E (pre @ ?first # mid) = fold (step E) mid w0"
    using w0 run_append [of E "pre @ [?first]" mid] by simp
  moreover have "tiers_ok (fold (step E) mid w0)" by (rule tiers_ok_fold [OF t0])
  ultimately show ?thesis
    using fetch_pois_served_from_memo [of "fold (step E) mid w0" "env_repr_str E" category "[]"
        "t0 + 3600" _ now "env_arith E" resp rng] assms(4)
    by simp
qed

theorem failed_fetch_is_memoised_witness:
  "sent (run example_env ([] @ [Fetch_pois 0 ''hotel'' RequestFailed (\<lambda>n. 0)])) \<noteq> sent (run example_env []) \<and>
   fst (fetch_pois (env_repr_str example_env) (env_arith example_env) 10 ''hotel''
          (Reply \<lparr>elements = Some [example_node 1 0 0 (Some [(''name'', ''Sol'')])]\<rparr>) (\<lambda>n. 0)
          (run example_env ([] @ Fetch_pois 0 ''hotel'' RequestFailed (\<lambda>n. 0) #
                                [Fetch_pois 5 ''x'' RequestFailed (\<lambda>n. 0)]))) = Inr [] \<and>
   sent (snd (fetch_pois (env_repr_str example_env) (env_arith example_env) 10 ''hotel''
          (Reply \<lparr>elements = Some [example_node 1 0 0 (Some [(''name'', ''Sol'')])]\<rparr>) (\<lambda>n. 0)
          (run example_env ([] @ Fetch_pois 0 ''hotel'' RequestFailed (\<lambda>n. 0) #
                                [Fetch_pois 5 ''x'' RequestFailed (\<lambda>n. 0)])))) = [Overpass]"
proof -
  let ?first = "Fetch_pois 0 ''hotel'' RequestFailed (\<lambda>n. 0)"
  let ?mid = "[Fetch_pois 5 ''x'' RequestFailed (\<lambda>n. 0)]"
  have a1: "sent (run example_env ([] @ [?first])) \<noteq> sent (run example_env [])"
    by (simp add: run_def example_env_def fetch_eval)
  have a2: "\<forall>call \<in> set ?mid. called_before (0 + 3600) call" by simp
  have a3: "length (filter is_fetch_pois ?mid) \<le> 99" by simp
  have s: "sent (run example_env ([] @ ?first # ?mid)) = [Overpass]"
    by (simp add: run_def example_env_def fetch_eval)
  from failed_fetch_is_memoised [OF a1 a2 a3, of 10] s a1 show ?thesis by simp
qed

text \<open>
  C10 as stated fails: 100 calls with 100 other categories between the two calls evict
  the memoised failure, and the second call for \<^verbatim>\<open>hotel\<close>, at the same clock reading,
  asks the provider again.
\<close>

theorem failed_fetch_evicted_counterexample:
  "sent (run example_env (Fetch_pois 0 ''hotel'' RequestFailed (\<lambda>n. 0) # other_pois_calls 100)) = [Overpass] \<and>
   sent (snd (fetch_pois example_repr binary64 0 ''hotel'' RequestFailed (\<lambda>n. 0)
                (run example_env (Fetch_pois 0 ''hotel'' RequestFailed (\<lambda>n. 0) # other_pois_calls 100)))) =
     [Overpass, Overpass]"
proof -
  let ?w = "run example_env (Fetch_pois 0 ''hotel'' RequestFailed (\<lambda>n. 0) # other_pois_calls 100)"
  from pois_memo_filled [of 100] have
    memo: "links (fetch_pois_cache ?w) =
             map (\<lambda>i. (key1 example_repr (replicate (Suc i) CHR ''x''), [], 3600)) [0..<100]" and
    poi: "POI_CACHE ?w = TTLCache 100 86400" and s: "sent ?w = [Overpass]"
    by simp_all
  have "key1 example_repr ''hotel'' \<notin> fst ` set (links (fetch_pois_cache ?w))"
    unfolding memo by (auto simp: key1_def example_repr_def)
  then have miss: "\<not> cache_contains 0 (key1 example_repr ''hotel'') (fetch_pois_cache ?w)"
    by (simp add: cache_contains_def map_of_eq_None_iff [THEN iffD2])
  have nopoi: "\<not> cache_contains 0 (''pois_'' @ ''hotel'') (POI_CACHE ?w)"
    by (simp add: poi cache_contains_def TTLCache_def)
  obtain r w' where f: "fetch_pois example_repr binary64 0 ''hotel'' RequestFailed (\<lambda>n. 0) ?w = (r, w')" by force
  from f tiers_ok_run have "sent w' = sent ?w @ [Overpass]"
  proof (cases rule: fetch_pois_cases)
    case (hit v m1)
    from getitem_Inr_contains [OF hit(1)] miss show ?thesis by simp
  next
    case (invalid x m1 m2)
    then show ?thesis by (simp add: queries_def)
  next
    case (poi_hit x m1 v p1 m2)
    from getitem_Inr_contains [OF poi_hit(3)] nopoi show ?thesis by simp
  next
    case (failed x m1 m2)
    then show ?thesis by simp
  next
    case (fetched x m1 data p1 m2)
    then show ?thesis by simp
  qed
  with f s show ?thesis by simp
qed

text \<open>
  C8, as amended: \<^verbatim>\<open>fetch_weather\<close> caches its result under the key
  \<^verbatim>\<open>str(args) + str(kwargs)\<close>; no rounding is applied. When a call at clock reading
  \<open>t0\<close> is not answered from the decorator's cache and returns a value (a snapshot or
  \<^verbatim>\<open>None\<close>), every later call whose arguments give the same key, made before
  \<open>t0 + 300\<close> and after at most 99 calls of \<^verbatim>\<open>fetch_weather\<close> in between, returns
  that value and sends no request.
\<close>

theorem weather_is_memoised:
  assumes "\<not> cache_contains t0 (key2 (env_repr_float E) lat lon) (fetch_weather_cache (run E pre))"
    and "fst (fetch_weather (env_repr_float E) (env_capitalize E) (env_api_key E) t0 lat lon resp0 (run E pre))
           = Inr r0"
    and "\<forall>call \<in> set mid. called_before (t0 + 300) call"
    and "length (filter is_fetch_weather mid) \<le> 99"
    and "key2 (env_repr_float E) lat' lon' = key2 (env_repr_float E) lat lon"
    and "now < t0 + 300"
  shows "fst (fetch_weather (env_repr_float E) (env_capitalize E) (env_api_key E) now lat' lon' resp
               (run E (pre @ Fetch_weather t0 lat lon resp0 # mid))) = Inr r0 \<and>
         sent (snd (fetch_weather (env_repr_float E) (env_capitalize E) (env_api_key E) now lat' lon' resp
               (run E (pre @ Fetch_weather t0 lat lon resp0 # mid)))) =
           sent (run E (pre @ Fetch_weather t0 lat lon resp0 # mid))"
proof -
  let ?K = "key2 (env_repr_float E) lat lon"
  let ?w = "run E pre"
  let ?first = "Fetch_weather t0 lat lon resp0"
  obtain r w0 where f: "fetch_weather (env_repr_float E) (env_capitalize E) (env_api_key E) t0 lat lon resp0 ?w = (r, w0)"
    by force
  then have w0: "run E (pre @ [?first]) = w0" by (simp add: run_snoc)
  from f assms(2) have r: "r = Inr r0" by simp
  have t: "tiers_ok ?w" by (rule tiers_ok_run)
  then have tm: "tier 100 300 (fetch_weather_cache ?w)" by (simp add: tiers_ok_def)
  from f t have "recent ?K r0 (t0 + 300) 0 (fetch_weather_cache w0)"
  proof (cases rule: fetch_weather_cases)
    case (hit v m1)
    from getitem_Inr_contains [OF hit(1)] assms(1) show ?thesis by simp
  next
    case (no_key x m1 m2)
    from tier_getitem [OF tm no_key(2)] have "ttl m1 = 300" by (simp add: tier_def)
    with recent_after_setitem [OF no_key(3)] no_key r show ?thesis by simp
  next
    case (failed x m1 m2)
    from tier_getitem [OF tm failed(1)] have "ttl m1 = 300" by (simp add: tier_def)
    with recent_after_setitem [OF failed(3)] failed r show ?thesis by simp
  next
    case (malformed x m1 data e)
    with r show ?thesis by simp
  next
    case (fetched x m1 data s m2)
    from tier_getitem [OF tm fetched(1)] have "ttl m1 = 300" by (simp add: tier_def)
    with recent_after_setitem [OF fetched(4)] fetched r show ?thesis by simp
  qed
  moreover have t0: "tiers_ok w0" using w0 tiers_ok_run [of E "pre @ [?first]"] by simp
  ultimately have "recent ?K r0 (t0 + 300) (length (filter is_fetch_weather mid))
      (fetch_weather_cache (fold (step E) mid w0))"
    using assms(3,4) by (intro fold_keeps_recent_weather)
  moreover have "run E (pre @ ?first # mid) = fold (step E) mid w0"
    using w0 run_append [of E "pre @ [?first]" mid] by simp
  moreover have "tiers_ok (fold (step E) mid w0)" by (rule tiers_ok_fold [OF t0])
  ultimately show ?thesis
    using fetch_weather_served_from_memo [of "fold (step E) mid w0" "env_repr_float E" lat' lon' r0
        "t0 + 300" _ now "env_capitalize E" "env_api_key E" resp] assms(5,6)
    by simp
qed

theorem weather_is_memoised_witness:
  "\<not> cache_contains 0 (key2 (env_repr_float example_env) 1 2) (fetch_weather_cache (run example_env [])) \<and>
   fst (fetch_weather (env_repr_float example_env) (env_capitalize example_env) (env_api_key example_env)
          0 1 2 (Reply example_weather_reply) (run example_env [])) = Inr (Some example_weather) \<and>
   fst (fetch_weather (env_repr_float example_env) (env_capitalize example_env) (env_api_key example_env)
          100 1 2 RequestFailed
          (run example_env ([] @ Fetch_weather 0 1 2 (Reply example_weather_reply) #
                                [Fetch_weather 10 3 4 RequestFailed]))) = Inr (Some example_weather) \<and>
   sent (snd (fetch_weather (env_repr_float example_env) (env_capitalize example_env) (env_api_key example_env)
          100 1 2 RequestFailed
          (run example_env ([] @ Fetch_weather 0 1 2 (Reply example_weather_reply) #
                                [Fetch_weather 10 3 4 RequestFailed])))) = [OpenWeatherMap, OpenWeatherMap]"
proof -
  let ?first = "Fetch_weather 0 1 2 (Reply example_weather_reply)"
  let ?mid = "[Fetch_weather 10 3 4 RequestFailed]"
  note ev = run_def example_env_def fetch_weather_def wrapper_def getitem_def initial_world_def
    TTLCache_def fetch_weather_body_def setitem_def expire_def move_to_end_def Let_def
    cache_contains_def example_snapshot key2_def example_repr_float_def unexpired_def
    eval_nat_numeral
  have a1: "\<not> cache_contains 0 (key2 (env_repr_float example_env) 1 2)
      (fetch_weather_cache (run example_env []))"
    by (simp add: ev)
  have a2: "fst (fetch_weather (env_repr_float example_env) (env_capitalize example_env)
      (env_api_key example_env) 0 1 2 (Reply example_weather_reply) (run example_env [])) =
      Inr (Some example_weather)"
    by (simp add: ev)
  have a3: "\<forall>call \<in> set ?mid. called_before (0 + 300) call" by simp
  have a4: "length (filter is_fetch_weather ?mid) \<le> 99" by simp
  have s: "sent (run example_env ([] @ ?first # ?mid)) = [OpenWeatherMap, OpenWeatherMap]"
    by (simp add: ev)
  from weather_is_memoised [OF a1 a2 a3 a4 refl, of 100 RequestFailed] s a1 a2 show ?thesis by simp
qed

text \<open>
  C8 as stated fails: 100 calls with 100 other latitudes between two calls for the same
  coordinate evict the cached result, and the second call, at the same clock reading,
  sends a request (the 102nd of the run).
\<close>

theorem weather_evicted_counterexample:
  "length (sent (run example_env (Fetch_weather 0 0 0 RequestFailed # other_weather_calls 100))) = 101 \<and>
   length (sent (snd (fetch_weather example_repr_float (\<lambda>s. s) (Some ''k'') 0 0 0 RequestFailed
                (run example_env (Fetch_weather 0 0 0 RequestFailed # other_weather_calls 100))))) = 102"
proof -
  let ?w = "run example_env (Fetch_weather 0 0 0 RequestFailed # other_weather_calls 100)"
  from weather_memo_filled [of 100] have
    memo: "links (fetch_weather_cache ?w) =
             map (\<lambda>i. (key2 example_repr_float (of_nat (Suc i)) 0, None, 300)) [0..<100]" and
    s: "sent ?w = replicate 101 OpenWeatherMap"
    by simp_all
  have k0: "key2 example_repr_float 0 0 = ''('' @ replicate 0 CHR ''1'' @ '', ){}''"
    using example_weather_key [of 0] by simp
  have new: "key2 example_repr_float 0 0 \<notin> fst ` set (links (fetch_weather_cache ?w))"
    unfolding memo by (auto simp: example_weather_key k0 simp del: of_nat_Suc)
  have live: "\<forall>l \<in> set (links (fetch_weather_cache ?w)). 0 < snd (snd l)"
    by (auto simp: memo)
  from failed_miss_step [OF _ _ tiers_ok_run new live, of "Some ''k''" "\<lambda>s. s"] s
  show ?thesis by simp
qed

section \<open>Lists kept in the POI tier\<close>

lemma getitem_set:
  assumes "distinct (map fst (links c))"
  shows "set (links (snd (getitem now k c))) = set (links c)"
proof (cases "map_of (links c) k")
  case None
  then show ?thesis by (simp add: getitem_def)
next
  case (Some ve)
  then have m: "(k, ve) \<in> set (links c)" by (rule map_of_SomeD)
  have uniq: "x = (k, ve)" if x: "x \<in> set (links c)" and k: "fst x = k" for x
  proof -
    from x k have "(k, snd x) \<in> set (links c)" by (metis prod.collapse)
    from eq_key_imp_eq_value [OF assms this m] k show ?thesis by (metis prod.collapse)
  qed
  have "{x \<in> set (links c). fst x \<noteq> k} \<union> {(k, ve)} = set (links c)"
    using uniq m by blast
  then have "set (filter (\<lambda>l. fst l \<noteq> k) (links c) @ [(k, ve)]) = set (links c)"
    by (simp only: set_append set_filter list.set Un_insert_right Un_empty_right)
  with Some show ?thesis by (cases ve) (simp add: getitem_def move_to_end_def)
qed

lemma setitem_keeps_entry:
  assumes "setitem now k' v' c = Inr c'" "(k, v, e) \<in> set (links c)" "k' \<noteq> k" "now < e"
    and "length (links c) < maxsize c"
  shows "(k, v, e) \<in> set (links c')"
proof -
  let ?ls = "filter (unexpired now) (links c)"
  have "length ?ls < maxsize c" using assms(5) le_less_trans [OF length_filter_le] by blast
  then have "popitems (maxsize c) ?ls = ?ls" by (rule popitems_room)
  moreover from assms(2,4) have "(k, v, e) \<in> set ?ls" by (simp add: unexpired_def)
  ultimately show ?thesis using assms(1,3)
    by (auto simp: setitem_def expire_def Let_def move_to_end_def split: if_splits simp del: popitems.simps)
qed

lemma entry_lookup:
  assumes "distinct (map fst (links c))" "(k, v, e) \<in> set (links c)"
  shows "map_of (links c) k = Some (v, e)"
  using assms by (rule map_of_is_SomeI)

lemma poi_keys_run:
  "entries_hold (\<lambda>k v. k \<in> (\<lambda>c. ''pois_'' @ c) ` set queries) (POI_CACHE (run E calls))"
proof -
  have "entries_hold (\<lambda>k v. k \<in> (\<lambda>c. ''pois_'' @ c) ` set queries) (POI_CACHE (run E calls)) \<and>
        entries_hold (\<lambda>k v. True) (fetch_pois_cache (run E calls))"
    by (rule entries_hold_run) simp_all
  then show ?thesis by blast
qed

lemma poi_cache_room: "length (links (POI_CACHE (run E calls))) \<le> 3"
proof -
  let ?ls = "links (POI_CACHE (run E calls))"
  from tiers_ok_run [of E calls] have d: "distinct (map fst ?ls)" by (simp add: tiers_ok_def tier_def)
  from poi_keys_run [of E calls] have "set (map fst ?ls) \<subseteq> (\<lambda>c. ''pois_'' @ c) ` set queries"
    by (auto simp: entries_hold_def)
  then have "card (set (map fst ?ls)) \<le> card ((\<lambda>c. ''pois_'' @ c) ` set queries)"
    by (intro card_mono) simp_all
  also have "\<dots> \<le> card (set queries)" by (rule card_image_le) simp
  also have "\<dots> \<le> length queries" by (rule card_length)
  also have "\<dots> = 3" by (simp add: queries_def)
  finally show ?thesis using distinct_card [OF d] by simp
qed


lemma setitem_member:
  "setitem now k v c = Inr c' \<Longrightarrow> (k, v, now + ttl c) \<in> set (links c')"
  by (auto simp: setitem_def Let_def move_to_end_def split: if_splits)

lemma setitem_only:
  "setitem now k v c = Inr c' \<Longrightarrow> entries_hold (\<lambda>k' v'. k' = k \<longrightarrow> v' = v) c'"
  by (auto simp: setitem_def Let_def move_to_end_def entries_hold_def split: if_splits)

lemma getitem_value:
  "getitem now k c = (Inr v, c') \<Longrightarrow> map_of (links c) k = Some (v', e) \<Longrightarrow> v = v' \<and> now < e"
  by (auto simp: getitem_def split: if_splits)

lemma step_keeps_list:
  assumes inj: "inj (env_repr_str E)" and valid: "category \<in> set queries"
    and c: "(''pois_'' @ category, L, T) \<in> set (links (POI_CACHE (run E calls)))"
    and d: "entries_hold (\<lambda>k v. k = key1 (env_repr_str E) category \<longrightarrow> v = L)
              (fetch_pois_cache (run E calls))"
    and b: "called_before T call"
  shows "(''pois_'' @ category, L, T) \<in> set (links (POI_CACHE (run E (calls @ [call])))) \<and>
         entries_hold (\<lambda>k v. k = key1 (env_repr_str E) category \<longrightarrow> v = L)
           (fetch_pois_cache (run E (calls @ [call])))"
proof -
  let ?w = "run E calls"
  let ?K = "key1 (env_repr_str E) category"
  let ?Q = "\<lambda>k v. k = ?K \<longrightarrow> v = L"
  have t: "tiers_ok ?w" by (rule tiers_ok_run)
  then have tp: "tier 100 86400 (POI_CACHE ?w)" by (simp add: tiers_ok_def)
  then have dp: "distinct (map fst (links (POI_CACHE ?w)))" by (rule tier_distinct)
  note look = entry_lookup [OF dp c]
  show ?thesis
  proof (cases call)
    case (Fetch_pois now c' resp rng)
    with b have now: "now < T" by simp
    from look now have contains: "cache_contains now (''pois_'' @ category) (POI_CACHE ?w)"
      by (simp add: cache_contains_def)
    have same: "c' = category" if "key1 (env_repr_str E) c' = ?K"
      using key1_inj [OF inj that] .
    obtain r w' where f: "fetch_pois (env_repr_str E) (env_arith E) now c' resp rng ?w = (r, w')" by force
    with Fetch_pois have w': "run E (calls @ [call]) = w'" by (simp add: run_snoc)
    from f t have "(''pois_'' @ category, L, T) \<in> set (links (POI_CACHE w')) \<and>
        entries_hold ?Q (fetch_pois_cache w')"
    proof (cases rule: fetch_pois_cases)
      case (hit v m1)
      with entries_hold_getitem [OF d hit(1)] c show ?thesis by simp
    next
      case (invalid x m1 m2)
      from entries_hold_getitem [OF d invalid(2)] have "entries_hold ?Q m1" by blast
      moreover from invalid(1) valid same have "?Q (key1 (env_repr_str E) c') []" by blast
      ultimately have "entries_hold ?Q m2" using invalid(3) by (rule entries_hold_setitem)
      with invalid c show ?thesis by simp
    next
      case (poi_hit x m1 v p1 m2)
      from entries_hold_getitem [OF d poi_hit(2)] have "entries_hold ?Q m1" by blast
      moreover have "?Q (key1 (env_repr_str E) c') v"
      proof
        assume "key1 (env_repr_str E) c' = ?K"
        then have "c' = category" by (rule same)
        with getitem_value [OF poi_hit(3)] look show "v = L" by simp
      qed
      ultimately have "entries_hold ?Q m2" using poi_hit(4) by (rule entries_hold_setitem)
      moreover from getitem_set [OF dp, of now "''pois_'' @ c'"] poi_hit(3) c
      have "(''pois_'' @ category, L, T) \<in> set (links p1)" by simp
      ultimately show ?thesis using poi_hit by simp
    next
      case (failed x m1 m2)
      from entries_hold_getitem [OF d failed(2)] have "entries_hold ?Q m1" by blast
      moreover from failed(3) contains same have "?Q (key1 (env_repr_str E) c') []" by blast
      ultimately have "entries_hold ?Q m2" using failed(5) by (rule entries_hold_setitem)
      with failed c show ?thesis by simp
    next
      case (fetched x m1 data p1 m2)
      let ?pois = "build_pois (env_arith E) c' (get_elements data) rng None [] (get_elements data)"
      from fetched(3) contains have ne: "c' \<noteq> category" by blast
      from entries_hold_getitem [OF d fetched(2)] have "entries_hold ?Q m1" by blast
      moreover from ne same have "?Q (key1 (env_repr_str E) c') ?pois" by blast
      ultimately have "entries_hold ?Q m2" using fetched(6) by (rule entries_hold_setitem)
      moreover have "length (links (POI_CACHE ?w)) < maxsize (POI_CACHE ?w)"
        using poi_cache_room [of E calls] tp by (simp add: tier_def)
      from setitem_keeps_entry [OF fetched(5) c _ now this] ne
      have "(''pois_'' @ category, L, T) \<in> set (links p1)" by simp
      ultimately show ?thesis using fetched by simp
    qed
    with w' show ?thesis by simp
  next
    case (Fetch_weather now lat lon resp)
    with step_frame [OF t, of E call] c d show ?thesis by (simp add: run_snoc)
  next
    case (Get_directions args resp)
    with step_frame [OF t, of E call] c d show ?thesis by (simp add: run_snoc)
  qed
qed


lemma run_keeps_list:
  assumes inj: "inj (env_repr_str E)" and valid: "category \<in> set queries"
    and c: "(''pois_'' @ category, L, T) \<in> set (links (POI_CACHE (run E calls)))"
    and d: "entries_hold (\<lambda>k v. k = key1 (env_repr_str E) category \<longrightarrow> v = L)
              (fetch_pois_cache (run E calls))"
    and b: "\<forall>call \<in> set mid. called_before T call"
  shows "(''pois_'' @ category, L, T) \<in> set (links (POI_CACHE (run E (calls @ mid)))) \<and>
         entries_hold (\<lambda>k v. k = key1 (env_repr_str E) category \<longrightarrow> v = L)
           (fetch_pois_cache (run E (calls @ mid)))"
  using b
proof (induction mid rule: rev_induct)
  case Nil
  from c d show ?case by simp
next
  case (snoc call mid)
  then have "(''pois_'' @ category, L, T) \<in> set (links (POI_CACHE (run E (calls @ mid))))"
    "entries_hold (\<lambda>k v. k = key1 (env_repr_str E) category \<longrightarrow> v = L)
       (fetch_pois_cache (run E (calls @ mid)))"
    "called_before T call"
    by simp_all
  from step_keeps_list [OF inj valid this] show ?case by simp
qed

text \<open>
  C4, as amended: for a valid category, once a call \<^verbatim>\<open>fetch_pois(category)\<close> at clock
  reading \<open>t0\<close> has asked the provider, received a reply and so stored the list built
  from it in the POI tier, every later call for that category at a clock reading before
  \<open>t0 + 86400\<close> returns that same list and sends no request, whatever calls were made
  in between. (The POI tier only ever holds the three valid keys, so nothing is evicted
  from it; the decorator's cache answers with the same list or falls back on the tier.)
\<close>

theorem fetched_list_is_served_for_a_day:
  assumes "inj (env_repr_str E)" and "category \<in> set queries"
    and "sent (run E (pre @ [Fetch_pois t0 category (Reply data) rng0])) \<noteq> sent (run E pre)"
    and "\<forall>call \<in> set mid. called_before (t0 + 86400) call"
    and "now < t0 + 86400"
  shows "fst (fetch_pois (env_repr_str E) (env_arith E) t0 category (Reply data) rng0 (run E pre)) =
           Inr (build_pois (env_arith E) category (get_elements data) rng0 None [] (get_elements data)) \<and>
         fst (fetch_pois (env_repr_str E) (env_arith E) now category resp rng
               (run E (pre @ Fetch_pois t0 category (Reply data) rng0 # mid))) =
           Inr (build_pois (env_arith E) category (get_elements data) rng0 None [] (get_elements data)) \<and>
         sent (snd (fetch_pois (env_repr_str E) (env_arith E) now category resp rng
               (run E (pre @ Fetch_pois t0 category (Reply data) rng0 # mid)))) =
           sent (run E (pre @ Fetch_pois t0 category (Reply data) rng0 # mid))"
proof -
  let ?K = "key1 (env_repr_str E) category"
  let ?L = "build_pois (env_arith E) category (get_elements data) rng0 None [] (get_elements data)"
  let ?Q = "\<lambda>k v. k = ?K \<longrightarrow> v = ?L"
  let ?first = "Fetch_pois t0 category (Reply data) rng0"
  let ?w = "run E pre"
  obtain r0 w0 where f: "fetch_pois (env_repr_str E) (env_arith E) t0 category (Reply data) rng0 ?w = (r0, w0)"
    by force
  then have w0: "run E (pre @ [?first]) = w0" by (simp add: run_snoc)
  have t: "tiers_ok ?w" by (rule tiers_ok_run)
  then have tp: "ttl (POI_CACHE ?w) = 86400" by (simp add: tiers_ok_def tier_def)
  from f t have first: "r0 = Inr ?L \<and> (''pois_'' @ category, ?L, t0 + 86400) \<in> set (links (POI_CACHE w0)) \<and>
      entries_hold ?Q (fetch_pois_cache w0)"
  proof (cases rule: fetch_pois_cases)
    case (fetched x m1 data' p1 m2)
    with setitem_member [OF fetched(5)] setitem_only [OF fetched(6)] tp show ?thesis by simp
  qed (use assms(3) w0 in auto)
  with w0 have
    "(''pois_'' @ category, ?L, t0 + 86400) \<in> set (links (POI_CACHE (run E (pre @ [?first]))))"
    "entries_hold ?Q (fetch_pois_cache (run E (pre @ [?first])))" by simp_all
  from run_keeps_list [OF assms(1,2) this assms(4)]
  have c: "(''pois_'' @ category, ?L, t0 + 86400) \<in> set (links (POI_CACHE (run E (pre @ ?first # mid))))"
    and d: "entries_hold ?Q (fetch_pois_cache (run E (pre @ ?first # mid)))" by simp_all
  let ?w1 = "run E (pre @ ?first # mid)"
  have t1: "tiers_ok ?w1" by (rule tiers_ok_run)
  then have dp: "distinct (map fst (links (POI_CACHE ?w1)))" by (simp add: tiers_ok_def tier_def)
  note look = entry_lookup [OF dp c]
  from look assms(5) have contains: "cache_contains now (''pois_'' @ category) (POI_CACHE ?w1)"
    by (simp add: cache_contains_def)
  obtain r w' where g: "fetch_pois (env_repr_str E) (env_arith E) now category resp rng ?w1 = (r, w')" by force
  from g t1 have "r = Inr ?L \<and> sent w' = sent ?w1"
  proof (cases rule: fetch_pois_cases)
    case (hit v m1)
    from entries_hold_getitem [OF d hit(1)] have "v = ?L" by blast
    with hit show ?thesis by simp
  next
    case (invalid x m1 m2)
    with assms(2) show ?thesis by simp
  next
    case (poi_hit x m1 v p1 m2)
    from getitem_value [OF poi_hit(3) look] have "v = ?L" by simp
    with poi_hit show ?thesis by simp
  next
    case (failed x m1 m2)
    with contains show ?thesis by simp
  next
    case (fetched x m1 data' p1 m2)
    with contains show ?thesis by simp
  qed
  with f g first show ?thesis by simp
qed


theorem fetched_list_is_served_for_a_day_witness:
  "inj (env_repr_str example_env) \<and> ''hotel'' \<in> set queries \<and>
   sent (run example_env ([] @ [Fetch_pois 0 ''hotel''
          (Reply \<lparr>elements = Some [example_node 1 0 0 (Some [(''name'', ''Sol'')])]\<rparr>) (\<lambda>n. 0)])) \<noteq>
     sent (run example_env []) \<and>
   fst (fetch_pois (env_repr_str example_env) (env_arith example_env) 80000 ''hotel'' RequestFailed (\<lambda>n. 1)
          (run example_env ([] @ Fetch_pois 0 ''hotel''
             (Reply \<lparr>elements = Some [example_node 1 0 0 (Some [(''name'', ''Sol'')])]\<rparr>) (\<lambda>n. 0) #
             [Fetch_pois 4000 ''hotel'' RequestFailed (\<lambda>n. 2)]))) =
     Inr [example_poi ''Sol'' (0, 0) (7 / 2)] \<and>
   sent (snd (fetch_pois (env_repr_str example_env) (env_arith example_env) 80000 ''hotel'' RequestFailed (\<lambda>n. 1)
          (run example_env ([] @ Fetch_pois 0 ''hotel''
             (Reply \<lparr>elements = Some [example_node 1 0 0 (Some [(''name'', ''Sol'')])]\<rparr>) (\<lambda>n. 0) #
             [Fetch_pois 4000 ''hotel'' RequestFailed (\<lambda>n. 2)])))) = [Overpass]"
proof -
  let ?data = "\<lparr>elements = Some [example_node 1 0 0 (Some [(''name'', ''Sol'')])]\<rparr>"
  let ?first = "Fetch_pois 0 ''hotel'' (Reply ?data) (\<lambda>n. 0)"
  let ?mid = "[Fetch_pois 4000 ''hotel'' RequestFailed (\<lambda>n. 2)]"
  have i: "inj (env_repr_str example_env)" by (simp add: example_env_def inj_example_repr)
  have q: "''hotel'' \<in> set queries" by (simp add: queries_def)
  have a: "sent (run example_env ([] @ [?first])) \<noteq> sent (run example_env [])"
    by (simp add: run_def example_env_def fetch_eval)
  have b: "\<forall>call \<in> set ?mid. called_before (0 + 86400) call" by simp
  have l: "build_pois (env_arith example_env) ''hotel'' (get_elements ?data) (\<lambda>n. 0) None [] (get_elements ?data) =
      [example_poi ''Sol'' (0, 0) (7 / 2)]"
    by (simp add: fetch_eval)
  have s: "sent (run example_env ([] @ ?first # ?mid)) = [Overpass]"
    by (simp add: run_def example_env_def fetch_eval)
  from fetched_list_is_served_for_a_day [OF i q a b, of 80000 RequestFailed "\<lambda>n. 1"] i q a l s
  show ?thesis by simp
qed

text \<open>
  C4 as stated fails: a call whose request fails stores nothing in the POI tier, and the
  decorator forgets its empty list after 3600 seconds. A second call one hour later,
  well within 24 hours, asks the provider again and returns another list.
\<close>

theorem fetch_pois_after_failure_counterexample:
  "fst (fetch_pois example_repr binary64 0 ''hotel'' RequestFailed (\<lambda>n. 0) initial_world) = Inr [] \<and>
   fst (fetch_pois example_repr binary64 3600 ''hotel''
          (Reply \<lparr>elements = Some [example_node 1 0 0 (Some [(''name'', ''Sol'')])]\<rparr>) (\<lambda>n. 0)
          (run example_env [Fetch_pois 0 ''hotel'' RequestFailed (\<lambda>n. 0)])) =
     Inr [example_poi ''Sol'' (0, 0) (7 / 2)] \<and>
   sent (snd (fetch_pois example_repr binary64 3600 ''hotel''
          (Reply \<lparr>elements = Some [example_node 1 0 0 (Some [(''name'', ''Sol'')])]\<rparr>) (\<lambda>n. 0)
          (run example_env [Fetch_pois 0 ''hotel'' RequestFailed (\<lambda>n. 0)]))) = [Overpass, Overpass]"
  by (simp add: run_def example_env_def fetch_eval)

end
